theory Spec2Isabelle
  imports Complex_Main "HOL-Library.Sublist" "HOL-Library.Multiset"
begin

section \<open>Strings\<close>

text \<open>
  A JavaScript string is a sequence of UTF-16 code units. The model covers the code units
  below 256 (Latin-1), one \<^typ>\<open>char\<close> each, so that \<open>length\<close> is \<^verbatim>\<open>String.length\<close>.
  On these code units \<^verbatim>\<open>toLowerCase\<close> maps \<open>A\<close>..\<open>Z\<close> (65..90) and the accented capitals
  192..222 other than the multiplication sign 215 to the code unit 32 above, and leaves
  every other unit as it is.
\<close>

definition toLowerCase_unit :: "char \<Rightarrow> char" where
  "toLowerCase_unit c =
     (let n = (of_char c :: nat)
      in if (65 \<le> n \<and> n \<le> 90) \<or> (192 \<le> n \<and> n \<le> 222 \<and> n \<noteq> 215)
         then char_of (n + 32) else c)"

definition toLowerCase :: "string \<Rightarrow> string" where
  "toLowerCase s = map toLowerCase_unit s"

text \<open>\<^verbatim>\<open>s.includes(p)\<close>: \<open>p\<close> occurs in \<open>s\<close> as a contiguous run of code units.\<close>

fun includes_str :: "string \<Rightarrow> string \<Rightarrow> bool" where
  "includes_str [] p = (p = [])"
| "includes_str (c # cs) p = (prefix p (c # cs) \<or> includes_str cs p)"

text \<open>\<^verbatim>\<open>s.split(' ')[0]\<close>: the part of \<open>s\<close> before its first space.\<close>

definition split_first :: "string \<Rightarrow> string" where
  "split_first s = takeWhile (\<lambda>c. c \<noteq> CHR '' '') s"

text \<open>The letters and digits of ASCII; a text without any is empty or punctuation only.\<close>

definition is_word_unit :: "char \<Rightarrow> bool" where
  "is_word_unit c =
     (let n = (of_char c :: nat)
      in (48 \<le> n \<and> n \<le> 57) \<or> (65 \<le> n \<and> n \<le> 90) \<or> (97 \<le> n \<and> n \<le> 122))"

text \<open>\<^verbatim>\<open>xs.join(sep)\<close> on an array of strings.\<close>

fun join :: "string \<Rightarrow> string list \<Rightarrow> string" where
  "join sep [] = []"
| "join sep [x] = x"
| "join sep (x # y # ys) = x @ sep @ join sep (y # ys)"

section \<open>Numbers\<close>

text \<open>
  A JavaScript number is a double. The pipeline only divides two set sizes, compares
  numbers with the literals \<^verbatim>\<open>0.3\<close>, \<^verbatim>\<open>0.6\<close> and \<^verbatim>\<open>0.7\<close>, and takes the sign of a
  difference. A finite double is a rational, so a finite number is kept as its exact
  value. For the quotient of two sizes of at most 10, rounding to a double keeps the order
  with respect to \<^verbatim>\<open>0.3\<close> and between two such quotients (two different quotients differ
  by more than 1/100, and \<^verbatim>\<open>3 / 10\<close> rounds to the literal \<^verbatim>\<open>0.3\<close>), and no double lies
  strictly between a decimal literal and the double that stands for it, so the
  comparisons below decide as the doubles do. Division by zero does not throw: it gives
  \<open>NaN\<close> or an infinity.
\<close>

datatype jsnum = Fin rat | PInf | NInf | NaN

text \<open>\<^verbatim>\<open>a.size / b.size\<close> for two non-negative integers.\<close>

definition size_div :: "nat \<Rightarrow> nat \<Rightarrow> jsnum" where
  "size_div n d =
     (if d = 0 then (if n = 0 then NaN else PInf) else Fin (of_nat n / of_nat d))"

text \<open>\<^verbatim>\<open>x > q\<close> for a finite literal \<open>q\<close>: every comparison with \<open>NaN\<close> is false.\<close>

fun js_gt :: "jsnum \<Rightarrow> rat \<Rightarrow> bool" where
  "js_gt (Fin r) q = (q < r)"
| "js_gt PInf q = True"
| "js_gt NInf q = False"
| "js_gt NaN q = False"

text \<open>\<^verbatim>\<open>b - a\<close>.\<close>

fun js_sub :: "jsnum \<Rightarrow> jsnum \<Rightarrow> jsnum" where
  "js_sub (Fin a) (Fin b) = Fin (a - b)"
| "js_sub NaN y = NaN"
| "js_sub x NaN = NaN"
| "js_sub PInf PInf = NaN"
| "js_sub NInf NInf = NaN"
| "js_sub PInf y = PInf"
| "js_sub NInf y = NInf"
| "js_sub (Fin a) PInf = NInf"
| "js_sub (Fin a) NInf = PInf"

section \<open>Arrays and sets\<close>

text \<open>
  \<^verbatim>\<open>Array.prototype.sort(comparefn)\<close> is stable, and \<open>x\<close> is placed after \<open>y\<close> only when
  \<^verbatim>\<open>comparefn(x, y) > 0\<close>; a comparator result of \<open>NaN\<close> counts as \<open>0\<close>. For a comparator
  that is a consistent ordering this fixes the result, which the insertion sort below
  computes. For an inconsistent comparator (one that gives \<open>NaN\<close> for some pairs only) the
  language leaves the order to the implementation, which need not order as the function
  below does: nothing is stated of \<open>array_sort\<close> there, and every property below is about
  comparators that are consistent on the list sorted.
\<close>

fun sort_positive :: "jsnum \<Rightarrow> bool" where
  "sort_positive (Fin r) = (0 < r)"
| "sort_positive PInf = True"
| "sort_positive NInf = False"
| "sort_positive NaN = False"

fun sort_insert :: "('a \<Rightarrow> 'a \<Rightarrow> jsnum) \<Rightarrow> 'a \<Rightarrow> 'a list \<Rightarrow> 'a list" where
  "sort_insert cmp x [] = [x]"
| "sort_insert cmp x (y # ys) =
     (if sort_positive (cmp x y) then y # sort_insert cmp x ys else x # y # ys)"

definition array_sort :: "('a \<Rightarrow> 'a \<Rightarrow> jsnum) \<Rightarrow> 'a list \<Rightarrow> 'a list" where
  "array_sort cmp xs = foldr (sort_insert cmp) xs []"

text \<open>
  A \<^verbatim>\<open>Set\<close> keeps its members once each, in insertion order: a list without
  duplicates. \<^verbatim>\<open>new Set(xs)\<close> adds the elements of \<open>xs\<close> from left to right.
\<close>

definition set_add :: "'a list \<Rightarrow> 'a \<Rightarrow> 'a list" where
  "set_add s x = (if x \<in> set s then s else s @ [x])"

definition new_Set :: "'a list \<Rightarrow> 'a list" where
  "new_Set xs = foldl set_add [] xs"

definition set_has :: "'a list \<Rightarrow> 'a \<Rightarrow> bool" where
  "set_has s x = (x \<in> set s)"

definition set_size :: "'a list \<Rightarrow> nat" where
  "set_size s = length s"

section \<open>FreeAI\<close>

subsection \<open>extractKeywords\<close>

text \<open>
  The part-of-speech tagger is the third-party library \<^verbatim>\<open>compromise\<close>, which is not part
  of the repository: \<^verbatim>\<open>compromise(text).nouns().out('array')\<close> and its two siblings are
  parameters of the model, three functions from a text to an array of strings.
\<close>

record tagger =
  nouns :: "string \<Rightarrow> string list"
  verbs :: "string \<Rightarrow> string list"
  adjectives :: "string \<Rightarrow> string list"

definition extractKeywords :: "tagger \<Rightarrow> string \<Rightarrow> string list" where
  "extractKeywords tg text =
     take 5 (filter (\<lambda>word. length word > 2) (nouns tg text @ verbs tg text @ adjectives tg text))"

subsection \<open>categorizeQuestion\<close>

definition categorizeQuestion :: "string \<Rightarrow> string" where
  "categorizeQuestion text =
     (let lowerText = toLowerCase text
      in if includes_str lowerText ''what is'' \<or> includes_str lowerText ''define'' \<or>
            includes_str lowerText ''meaning'' \<or> includes_str lowerText ''mean''
         then ''definition''
         else if includes_str lowerText ''how to'' \<or> includes_str lowerText ''steps'' \<or>
            includes_str lowerText ''process'' \<or> includes_str lowerText ''procedure''
         then ''process''
         else if includes_str lowerText ''why'' \<or> includes_str lowerText ''reason'' \<or>
            includes_str lowerText ''because'' \<or> includes_str lowerText ''purpose''
         then ''reasoning''
         else if includes_str lowerText ''example'' \<or> includes_str lowerText ''instance'' \<or>
            includes_str lowerText ''case'' \<or> includes_str lowerText ''sample''
         then ''examples''
         else if includes_str lowerText ''confused'' \<or> includes_str lowerText ''unclear'' \<or>
            includes_str lowerText ''understand'' \<or> includes_str lowerText ''explain''
         then ''clarification''
         else ''general'')"

text \<open>
  The categorizer as the specification words it: an ordered table of rules, each a
  category with its phrases; the first rule one of whose phrases occurs in the lower-cased
  text gives the category, and \<open>general\<close> is the default.
\<close>

definition category_rules :: "(string \<times> string list) list" where
  "category_rules =
     [(''definition'', [''what is'', ''define'', ''meaning'', ''mean'']),
      (''process'', [''how to'', ''steps'', ''process'', ''procedure'']),
      (''reasoning'', [''why'', ''reason'', ''because'', ''purpose'']),
      (''examples'', [''example'', ''instance'', ''case'', ''sample'']),
      (''clarification'', [''confused'', ''unclear'', ''understand'', ''explain''])]"

definition categorize_spec :: "string \<Rightarrow> string" where
  "categorize_spec text =
     (case find (\<lambda>rule. list_ex (\<lambda>p. sublist p (toLowerCase text)) (snd rule)) category_rules of
        Some rule \<Rightarrow> fst rule
      | None \<Rightarrow> ''general'')"

subsection \<open>findSimilarQuestions\<close>

text \<open>
  A row of the table \<^verbatim>\<open>questions\<close>, with the columns the server writes (\<^verbatim>\<open>timestamp\<close>
  and \<^verbatim>\<open>upvotes\<close> are filled by the database's defaults and never read here).
\<close>

record question_row =
  id_col :: string
  session_id :: string
  student_name :: string
  question_text :: string
  sentiment_col :: string
  topic_cluster :: string

record similar_question =
  questionId :: string
  similarity :: jsnum
  text_sq :: string

text \<open>Lines 117 to 120: the Jaccard similarity of two keyword \<^verbatim>\<open>Set\<close>s.\<close>

definition jaccard :: "string list \<Rightarrow> string list \<Rightarrow> jsnum" where
  "jaccard newKeywords existingKeywords =
     (let intersection = new_Set (filter (\<lambda>x. set_has existingKeywords x) newKeywords);
          union = new_Set (newKeywords @ existingKeywords)
      in size_div (set_size intersection) (set_size union))"

text \<open>The \<^verbatim>\<open>forEach\<close> over the existing questions, pushing onto \<^verbatim>\<open>similarities\<close>.\<close>

fun similarities_loop ::
  "tagger \<Rightarrow> string list \<Rightarrow> question_row list \<Rightarrow> similar_question list \<Rightarrow> similar_question list"
where
  "similarities_loop tg newKeywords [] similarities = similarities"
| "similarities_loop tg newKeywords (existing # rest) similarities =
     (let existingKeywords = new_Set (extractKeywords tg (toLowerCase (question_text existing)));
          sim = jaccard newKeywords existingKeywords
      in similarities_loop tg newKeywords rest
           (if js_gt sim (3 / 10)
            then similarities @
                 [\<lparr>questionId = id_col existing, similarity = sim, text_sq = question_text existing\<rparr>]
            else similarities))"

definition findSimilarQuestions ::
  "tagger \<Rightarrow> string \<Rightarrow> question_row list \<Rightarrow> similar_question list"
where
  "findSimilarQuestions tg newQuestion existingQuestions =
     (let newKeywords = new_Set (extractKeywords tg (toLowerCase newQuestion));
          similarities = similarities_loop tg newKeywords existingQuestions []
      in array_sort (\<lambda>a b. js_sub (similarity b) (similarity a)) similarities)"

text \<open>
  The Jaccard similarity as the specification words it: the size of the intersection over
  the size of the union of two keyword sets, and 0 for two empty sets.
\<close>

definition jaccard_spec :: "string set \<Rightarrow> string set \<Rightarrow> rat" where
  "jaccard_spec A B = (if A \<union> B = {} then 0 else of_nat (card (A \<inter> B)) / of_nat (card (A \<union> B)))"

text \<open>
  With it, the result the specification asks of the matcher for one existing question, and
  the existing questions it keeps: those whose similarity is strictly above 0.30.
\<close>

definition keyword_set :: "tagger \<Rightarrow> string \<Rightarrow> string set" where
  "keyword_set tg t = set (extractKeywords tg (toLowerCase t))"

definition similar_spec :: "tagger \<Rightarrow> string \<Rightarrow> question_row \<Rightarrow> similar_question" where
  "similar_spec tg q e =
     \<lparr>questionId = id_col e,
      similarity = Fin (jaccard_spec (keyword_set tg q) (keyword_set tg (question_text e))),
      text_sq = question_text e\<rparr>"

definition matches_spec :: "tagger \<Rightarrow> string \<Rightarrow> question_row list \<Rightarrow> question_row list" where
  "matches_spec tg q corpus =
     filter (\<lambda>e. 3 / 10 < jaccard_spec (keyword_set tg q) (keyword_set tg (question_text e))) corpus"

subsection \<open>generateTopicSummary\<close>

text \<open>
  A member of a cluster is a row of the table or the object
  \<^verbatim>\<open>{ question_text: questionText }\<close> pushed for the new question; only
  \<^verbatim>\<open>question_text\<close> is read.
\<close>

datatype cluster_member = Row question_row | NewQuestion string

fun member_text :: "cluster_member \<Rightarrow> string" where
  "member_text (Row r) = question_text r"
| "member_text (NewQuestion t) = t"

text \<open>
  \<^verbatim>\<open>keywordFreq\<close> is a plain object: its own properties in creation order, on top of the
  properties every object inherits from \<^verbatim>\<open>Object.prototype\<close>. A stored value is a count,
  or a text: reading \<^verbatim>\<open>keywordFreq[keyword]\<close> for an inherited name gives a function (for
  \<^verbatim>\<open>__proto__\<close> the prototype object), which is truthy, and adding 1 to it concatenates its
  source text with \<^verbatim>\<open>"1"\<close>.
\<close>

datatype freq_val = Count nat | Text string

definition prototype_names :: "string list" where
  "prototype_names =
     [''constructor'', ''__defineGetter__'', ''__defineSetter__'', ''hasOwnProperty'',
      ''__lookupGetter__'', ''__lookupSetter__'', ''isPrototypeOf'', ''propertyIsEnumerable'',
      ''toString'', ''valueOf'', ''__proto__'', ''toLocaleString'']"

definition inherited_text :: "string \<Rightarrow> string" where
  "inherited_text k =
     (if k = ''__proto__'' then ''[object Object]''
      else ''function '' @ (if k = ''constructor'' then ''Object'' else k) @ ''() { [native code] }'')"

text \<open>\<^verbatim>\<open>(keywordFreq[keyword] || 0) + 1\<close>.\<close>

definition next_freq :: "(string \<times> freq_val) list \<Rightarrow> string \<Rightarrow> freq_val" where
  "next_freq keywordFreq keyword =
     (case map_of keywordFreq keyword of
        Some (Count n) \<Rightarrow> Count (n + 1)
      | Some (Text s) \<Rightarrow> (if s = [] then Count 1 else Text (s @ ''1''))
      | None \<Rightarrow>
          (if keyword \<in> set prototype_names then Text (inherited_text keyword @ ''1'')
           else Count 1))"

text \<open>
  \<^verbatim>\<open>keywordFreq[keyword] = v\<close>: an own property is updated in place or created last; the
  setter of \<^verbatim>\<open>__proto__\<close> ignores a value that is not an object and creates nothing.
\<close>

fun set_prop :: "(string \<times> freq_val) list \<Rightarrow> string \<Rightarrow> freq_val \<Rightarrow> (string \<times> freq_val) list" where
  "set_prop [] k v = [(k, v)]"
| "set_prop ((k', v') # rest) k v = (if k' = k then (k, v) # rest else (k', v') # set_prop rest k v)"

definition count_keyword :: "(string \<times> freq_val) list \<Rightarrow> string \<Rightarrow> (string \<times> freq_val) list" where
  "count_keyword keywordFreq keyword =
     (if keyword = ''__proto__'' then keywordFreq
      else set_prop keywordFreq keyword (next_freq keywordFreq keyword))"

text \<open>
  \<^verbatim>\<open>Object.entries\<close> lists the own properties whose name is an array index (the canonical
  decimal form of an integer below \<open>2^32 - 1\<close>) first, in ascending numeric order, and the
  others after them in creation order.
\<close>

definition digit_val :: "char \<Rightarrow> int" where
  "digit_val c = of_char c - 48"

definition is_digit :: "char \<Rightarrow> bool" where
  "is_digit c = (48 \<le> (of_char c :: nat) \<and> (of_char c :: nat) \<le> 57)"

definition decimal :: "string \<Rightarrow> int" where
  "decimal s = foldl (\<lambda>n c. 10 * n + digit_val c) 0 s"

definition is_array_index :: "string \<Rightarrow> bool" where
  "is_array_index s =
     (s \<noteq> [] \<and> list_all is_digit s \<and> (s = ''0'' \<or> hd s \<noteq> CHR ''0'') \<and> decimal s < 4294967295)"

definition Object_entries :: "(string \<times> freq_val) list \<Rightarrow> (string \<times> freq_val) list" where
  "Object_entries obj =
     sort_key (\<lambda>e. decimal (fst e)) (filter (\<lambda>e. is_array_index (fst e)) obj) @
     filter (\<lambda>e. \<not> is_array_index (fst e)) obj"

text \<open>
  The value of a frequency as a number, for the subtraction in the comparator: a text
  stored here starts with \<^verbatim>\<open>function\<close> or \<^verbatim>\<open>[object\<close> and is not a numeral.
\<close>

fun freq_number :: "freq_val \<Rightarrow> jsnum" where
  "freq_number (Count n) = Fin (of_nat n)"
| "freq_number (Text s) = NaN"

record topic_summary =
  title :: string
  keywords_ts :: "string list"
  questionCount :: nat
  urgency :: string

definition generateTopicSummary :: "tagger \<Rightarrow> cluster_member list \<Rightarrow> topic_summary option" where
  "generateTopicSummary tg questions =
     (if length questions = 0 then None
      else
        let allKeywords = concat (map (\<lambda>q. extractKeywords tg (member_text q)) questions);
            keywordFreq = foldl count_keyword [] allKeywords;
            topKeywords =
              map fst (take 3
                (array_sort (\<lambda>e1 e2. js_sub (freq_number (snd e2)) (freq_number (snd e1)))
                   (Object_entries keywordFreq)))
        in Some \<lparr>title = join '' & '' topKeywords,
                 keywords_ts = topKeywords,
                 questionCount = length questions,
                 urgency = (if length questions > 2 then ''high''
                            else if length questions > 1 then ''medium'' else ''low'')\<rparr>)"

text \<open>
  To state which keywords the summary keeps: the keywords of a cluster in the order they
  are collected, the position at which a keyword is first seen, the order in which
  \<^verbatim>\<open>Object.entries\<close> lists two keys, and the ranking the sort then gives, by descending
  frequency and, on equal frequency, by that order.
\<close>

definition cluster_keywords :: "tagger \<Rightarrow> cluster_member list \<Rightarrow> string list" where
  "cluster_keywords tg questions = concat (map (\<lambda>q. extractKeywords tg (member_text q)) questions)"

definition first_seen :: "string list \<Rightarrow> string \<Rightarrow> nat" where
  "first_seen ks k = length (takeWhile (\<lambda>x. x \<noteq> k) ks)"

definition listed_before :: "string list \<Rightarrow> string \<Rightarrow> string \<Rightarrow> bool" where
  "listed_before ks a b =
     (if is_array_index a then (if is_array_index b then decimal a \<le> decimal b else True)
      else (if is_array_index b then False else first_seen ks a < first_seen ks b))"

text \<open>The ranking with ties broken by first-seen order alone.\<close>

definition seen_ranks_before :: "string list \<Rightarrow> string \<Rightarrow> string \<Rightarrow> bool" where
  "seen_ranks_before ks a b =
     (count_list ks b < count_list ks a \<or>
      (count_list ks a = count_list ks b \<and> first_seen ks a < first_seen ks b))"

definition ranks_before :: "string list \<Rightarrow> string \<Rightarrow> string \<Rightarrow> bool" where
  "ranks_before ks a b =
     (count_list ks b < count_list ks a \<or>
      (count_list ks a = count_list ks b \<and> listed_before ks a b))"

section \<open>EnhancedAI\<close>

text \<open>
  The Hugging Face client is a third-party library: its two calls are parameters of the
  model, each a function from the text to the error it throws or the result it resolves
  to. \<^verbatim>\<open>hf\<close> is the client, or \<^verbatim>\<open>null\<close> when no API key is set. Every call made is
  appended to a log, so that what was called can be read off the result.
\<close>

datatype js_error = TypeError | RemoteError string | DatabaseError string

record zero_shot_result =
  labels :: "string list"
  scores :: "jsnum list"

record text_class_item =
  label :: string
  score :: jsnum

record hf_client =
  zeroShotClassification :: "string \<Rightarrow> js_error + zero_shot_result"
  textClassification :: "string \<Rightarrow> js_error + text_class_item list"

datatype remote_call = ZeroShotCall string | TextClassCall string

record ai_config =
  AI_ENABLED_var :: "string option"
  hf :: "hf_client option"

text \<open>\<^verbatim>\<open>process.env.AI_ENABLED !== 'false'\<close>.\<close>

definition AI_ENABLED :: "ai_config \<Rightarrow> bool" where
  "AI_ENABLED cfg = (AI_ENABLED_var cfg \<noteq> Some ''false'')"

text \<open>\<^verbatim>\<open>try { body } catch (error) { handler }\<close> on results.\<close>

definition try_catch :: "js_error + 'a \<Rightarrow> (js_error \<Rightarrow> js_error + 'a) \<Rightarrow> js_error + 'a" where
  "try_catch body handler = (case body of Inl error \<Rightarrow> handler error | Inr v \<Rightarrow> Inr v)"

definition and_then :: "js_error + 'a \<Rightarrow> ('a \<Rightarrow> js_error + 'b) \<Rightarrow> js_error + 'b" where
  "and_then r f = (case r of Inl error \<Rightarrow> Inl error | Inr v \<Rightarrow> f v)"

text \<open>
  Lines 204 to 208: \<^verbatim>\<open>result.labels[0].toLowerCase()\<close> and \<^verbatim>\<open>confidence.toFixed(2)\<close> throw
  a \<^verbatim>\<open>TypeError\<close> when the array read is empty.
\<close>

definition category_of_result :: "zero_shot_result \<Rightarrow> js_error + string" where
  "category_of_result result =
     (case labels result of
        [] \<Rightarrow> Inl TypeError
      | l # _ \<Rightarrow>
          (let category = split_first (toLowerCase l)
           in case scores result of [] \<Rightarrow> Inl TypeError | confidence # _ \<Rightarrow> Inr category))"

definition EnhancedAI_categorizeQuestion ::
  "ai_config \<Rightarrow> string \<Rightarrow> remote_call list \<Rightarrow> (js_error + string) \<times> remote_call list"
where
  "EnhancedAI_categorizeQuestion cfg text calls =
     (if \<not> AI_ENABLED cfg then (Inr (categorizeQuestion text), calls)
      else case hf cfg of
        None \<Rightarrow> (Inr (categorizeQuestion text), calls)
      | Some client \<Rightarrow>
          (try_catch (and_then (zeroShotClassification client text) category_of_result)
             (\<lambda>error. Inr (categorizeQuestion text)),
           calls @ [ZeroShotCall text]))"

text \<open>Lines 231 to 238.\<close>

definition sentiment_of_result :: "text_class_item list \<Rightarrow> js_error + string" where
  "sentiment_of_result result =
     (case result of
        [] \<Rightarrow> Inl TypeError
      | r # _ \<Rightarrow>
          (let sentiment = toLowerCase (label r);
               confidence = score r
           in if sentiment = ''negative'' \<and> js_gt confidence (6 / 10) then Inr ''confused''
              else if sentiment = ''positive'' \<and> js_gt confidence (7 / 10) then Inr ''excited''
              else Inr ''neutral''))"

definition EnhancedAI_analyzeSentiment ::
  "ai_config \<Rightarrow> string \<Rightarrow> remote_call list \<Rightarrow> (js_error + string) \<times> remote_call list"
where
  "EnhancedAI_analyzeSentiment cfg text calls =
     (if \<not> AI_ENABLED cfg \<or> hf cfg = None then (Inr ''neutral'', calls)
      else case hf cfg of
        None \<Rightarrow> (Inr ''neutral'', calls)
      | Some client \<Rightarrow>
          (try_catch (and_then (textClassification client text) sentiment_of_result)
             (\<lambda>error. Inr ''neutral''),
           calls @ [TextClassCall text]))"

text \<open>
  Lines 436 and 437 of the handler, the two awaited calls in sequence: the category, then
  the analysed sentiment. An error of the first would leave the second uncalled.
\<close>

definition classify ::
  "ai_config \<Rightarrow> string \<Rightarrow> remote_call list \<Rightarrow> (js_error + string \<times> string) \<times> remote_call list"
where
  "classify cfg text calls =
     (case EnhancedAI_categorizeQuestion cfg text calls of
        (Inl error, calls1) \<Rightarrow> (Inl error, calls1)
      | (Inr category, calls1) \<Rightarrow>
          (case EnhancedAI_analyzeSentiment cfg text calls1 of
             (Inl error, calls2) \<Rightarrow> (Inl error, calls2)
           | (Inr analyzedSentiment, calls2) \<Rightarrow> (Inr (category, analyzedSentiment), calls2)))"

section \<open>The handler of \<^verbatim>\<open>submit-question\<close>\<close>

text \<open>
  The event's payload. The client's \<^verbatim>\<open>sentiment\<close> is whatever the client sent, or absent.
\<close>

record submission =
  sessionCode :: string
  studentName :: string
  questionText :: string
  sentiment :: "string option"

record question_data =
  id_qd :: string
  sessionId :: string
  studentName_qd :: string
  questionText_qd :: string
  sentiment_qd :: "string option"
  category :: string
  topicCluster :: string
  similarQuestions :: "similar_question list"
  topicSummary :: "topic_summary option"
  timestamp :: nat
  upvotes :: nat

text \<open>
  What the handler reads from outside: the configuration, whether the database fails the
  \<^verbatim>\<open>SELECT\<close> or the \<^verbatim>\<open>INSERT\<close>, the identifier \<^verbatim>\<open>uuidv4()\<close> returns and the clock.
\<close>

record world =
  config :: ai_config
  select_error :: "js_error option"
  insert_error :: "js_error option"
  uuidv4 :: string
  now :: nat

text \<open>
  What the handler changes: the table \<^verbatim>\<open>questions\<close>, the \<^verbatim>\<open>new-question\<close> events
  broadcast (each with its room), and the log of remote calls.
\<close>

record server_state =
  questions_table :: "question_row list"
  broadcast :: "(string \<times> question_data) list"
  remote_calls :: "remote_call list"

text \<open>\<^verbatim>\<open>db.all('SELECT * FROM questions WHERE session_id = ?', [sessionCode], ...)\<close>.\<close>

definition db_all :: "world \<Rightarrow> server_state \<Rightarrow> string \<Rightarrow> js_error + question_row list" where
  "db_all w st code =
     (case select_error w of
        Some err \<Rightarrow> Inl err
      | None \<Rightarrow> Inr (filter (\<lambda>r. session_id r = code) (questions_table st)))"

text \<open>Lines 460 to 463: the matched rows, then the new question.\<close>

definition relatedQuestions ::
  "similar_question list \<Rightarrow> question_row list \<Rightarrow> string \<Rightarrow> cluster_member list"
where
  "relatedQuestions similar existingQuestions text =
     map Row (filter (\<lambda>q. list_ex (\<lambda>s. questionId s = id_col q) similar) existingQuestions) @
     [NewQuestion text]"

text \<open>Line 466: an object is truthy, whatever its title.\<close>

definition topic_label :: "topic_summary option \<Rightarrow> string \<Rightarrow> string" where
  "topic_label summary cat = (case summary of Some s \<Rightarrow> title s | None \<Rightarrow> cat)"

text \<open>
  The callback of \<^verbatim>\<open>db.all\<close> (lines 447 to 504), given the category and the analysed
  sentiment.
\<close>

definition on_rows ::
  "tagger \<Rightarrow> world \<Rightarrow> submission \<Rightarrow> string \<Rightarrow> string \<Rightarrow> js_error + question_row list \<Rightarrow>
   server_state \<Rightarrow> server_state"
where
  "on_rows tg w data cat analyzedSentiment fetched st =
     (let existingQuestions = (case fetched of Inl err \<Rightarrow> [] | Inr found \<Rightarrow> found);
          similar = findSimilarQuestions tg (questionText data) existingQuestions;
          related = relatedQuestions similar existingQuestions (questionText data);
          summary = generateTopicSummary tg related;
          cluster = topic_label summary cat
      in case insert_error w of
           Some err \<Rightarrow> st
         | None \<Rightarrow>
             st\<lparr>questions_table := questions_table st @
                   [\<lparr>id_col = uuidv4 w, session_id = sessionCode data,
                     student_name = studentName data, question_text = questionText data,
                     sentiment_col = analyzedSentiment, topic_cluster = cluster\<rparr>],
                broadcast := broadcast st @
                   [(sessionCode data,
                     \<lparr>id_qd = uuidv4 w, sessionId = sessionCode data,
                      studentName_qd = studentName data, questionText_qd = questionText data,
                      sentiment_qd = sentiment data, category = cat, topicCluster = cluster,
                      similarQuestions = similar, topicSummary = summary,
                      timestamp = now w, upvotes = 0\<rparr>)]\<rparr>)"

definition submit_question :: "tagger \<Rightarrow> world \<Rightarrow> submission \<Rightarrow> server_state \<Rightarrow> server_state" where
  "submit_question tg w data st =
     (case classify (config w) (questionText data) (remote_calls st) of
        (Inl error, calls) \<Rightarrow> st\<lparr>remote_calls := calls\<rparr>
      | (Inr (cat, analyzedSentiment), calls) \<Rightarrow>
          on_rows tg w data cat analyzedSentiment (db_all w st (sessionCode data))
            (st\<lparr>remote_calls := calls\<rparr>))"

section \<open>Collaborators to run the model on\<close>

text \<open>
  To evaluate the model on concrete questions a tagger is needed. This one reports every
  maximal run of letters and digits as a noun, and no verb or adjective.
\<close>

fun split_words :: "string \<Rightarrow> string \<Rightarrow> string list" where
  "split_words cur [] = (if cur = [] then [] else [cur])"
| "split_words cur (c # cs) =
     (if is_word_unit c then split_words (cur @ [c]) cs
      else (if cur = [] then [] else [cur]) @ split_words [] cs)"

definition word_tagger :: tagger where
  "word_tagger = \<lparr>nouns = split_words [], verbs = (\<lambda>t. []), adjectives = (\<lambda>t. [])\<rparr>"

text \<open>
  A second tagger, which reports a text that is not empty as one noun, whatever its
  characters, as a tagger does that takes a run of punctuation for a token.
\<close>

definition whole_text_tagger :: tagger where
  "whole_text_tagger =
     \<lparr>nouns = (\<lambda>t. if t = [] then [] else [t]), verbs = (\<lambda>t. []), adjectives = (\<lambda>t. [])\<rparr>"

text \<open>
  Two remote clients: one that answers every text with the same labels, and one whose
  calls all fail.
\<close>

definition answering_client :: hf_client where
  "answering_client =
     \<lparr>zeroShotClassification =
        (\<lambda>t. Inr \<lparr>labels = [''Examples and cases'', ''general question''],
                    scores = [Fin (9 / 10), Fin (1 / 10)]\<rparr>),
      textClassification = (\<lambda>t. Inr [\<lparr>label = ''NEGATIVE'', score = Fin (9 / 10)\<rparr>])\<rparr>"


text \<open>
  A room with one question, and a second question submitted to it by the web client, which
  always sends the sentiment \<^verbatim>\<open>'neutral'\<close>.
\<close>

definition roi_row :: question_row where
  "roi_row =
     \<lparr>id_col = ''q1'', session_id = ''room1'', student_name = ''Ann'',
      question_text = ''What is ROI?'', sentiment_col = ''neutral'',
      topic_cluster = ''What & ROI''\<rparr>"

definition roi_state :: server_state where
  "roi_state = \<lparr>questions_table = [roi_row], broadcast = [], remote_calls = []\<rparr>"

definition roi_submission :: submission where
  "roi_submission =
     \<lparr>sessionCode = ''room1'', studentName = ''Bob'',
      questionText = ''What does ROI mean?'', sentiment = Some ''neutral''\<rparr>"

definition roi_world :: world where
  "roi_world =
     \<lparr>config = \<lparr>AI_ENABLED_var = None, hf = Some answering_client\<rparr>,
      select_error = None, insert_error = None, uuidv4 = ''q2'', now = 0\<rparr>"

section \<open>The rule-based categorizer\<close>

lemma includes_str_sublist: "includes_str s p \<longleftrightarrow> sublist p s"
  by (induction s) (auto simp: sublist_Cons_right)

lemma toLowerCase_unit_idem: "toLowerCase_unit (toLowerCase_unit c) = toLowerCase_unit c"
  by (auto simp: toLowerCase_unit_def Let_def)

lemma toLowerCase_idem: "toLowerCase (toLowerCase s) = toLowerCase s"
  by (simp add: toLowerCase_def toLowerCase_unit_idem)

lemma categorizeQuestion_lower:
  "toLowerCase s = toLowerCase t \<Longrightarrow> categorizeQuestion s = categorizeQuestion t"
  by (simp add: categorizeQuestion_def)

lemma categorizeQuestion_examples:
  "categorizeQuestion ''What is ROI?'' = ''definition''"
  "categorizeQuestion ''How to compute IRR'' = ''process''"
  "categorizeQuestion ''Why does this happen'' = ''reasoning''"
  "categorizeQuestion ''Can you give an example'' = ''examples''"
  "categorizeQuestion ''I'm confused about this'' = ''clarification''"
  "categorizeQuestion ''Tell me about bonds'' = ''general''"
  by code_simp+

lemma categorizeQuestion_range:
  "categorizeQuestion t \<in> {''definition'', ''process'', ''reasoning'', ''examples'', ''clarification'', ''general''}"
  by (simp add: categorizeQuestion_def Let_def)

text \<open>
  Claim C5. The categorizer is a total function of the text alone. It equals the
  first-match reading of the rule table in the order definition, process, reasoning,
  examples, clarification, with \<open>general\<close> when no phrase occurs; it always returns one of the
  six categories; two texts with the same lower-case form get the same category; and the
  six example questions get the categories the specification lists.
\<close>

theorem categorizeQuestion_first_match:
  "categorizeQuestion t = categorize_spec t \<and>
   categorizeQuestion t \<in>
     {''definition'', ''process'', ''reasoning'', ''examples'', ''clarification'', ''general''} \<and>
   (toLowerCase s = toLowerCase t \<longrightarrow> categorizeQuestion s = categorizeQuestion t) \<and>
   categorizeQuestion (toLowerCase t) = categorizeQuestion t \<and>
   categorizeQuestion ''What is ROI?'' = ''definition'' \<and>
   categorizeQuestion ''How to compute IRR'' = ''process'' \<and>
   categorizeQuestion ''Why does this happen'' = ''reasoning'' \<and>
   categorizeQuestion ''Can you give an example'' = ''examples'' \<and>
   categorizeQuestion ''I'm confused about this'' = ''clarification'' \<and>
   categorizeQuestion ''Tell me about bonds'' = ''general''"
proof -
  have "categorizeQuestion t = categorize_spec t"
    by (simp add: categorizeQuestion_def categorize_spec_def category_rules_def Let_def
        includes_str_sublist)
  moreover have "categorizeQuestion (toLowerCase t) = categorizeQuestion t"
    by (rule categorizeQuestion_lower) (rule toLowerCase_idem)
  moreover have "toLowerCase s = toLowerCase t \<longrightarrow> categorizeQuestion s = categorizeQuestion t"
    using categorizeQuestion_lower by blast
  moreover note categorizeQuestion_range [of t] categorizeQuestion_examples
  ultimately show ?thesis
    by (intro conjI)
qed

theorem categorizeQuestion_first_match_witness:
  "toLowerCase ''WHAT IS ROI?'' = toLowerCase ''what is roi?'' \<and>
   categorizeQuestion ''WHAT IS ROI?'' = categorizeQuestion ''what is roi?'' \<and>
   categorizeQuestion ''WHAT IS ROI?'' = ''definition'' \<and>
   categorizeQuestion ''Explain why, for example'' = ''reasoning''"
proof -
  have h: "toLowerCase ''WHAT IS ROI?'' = toLowerCase ''what is roi?''"
    by code_simp
  have d: "categorize_spec ''WHAT IS ROI?'' = ''definition''"
    by code_simp
  have r: "categorize_spec ''Explain why, for example'' = ''reasoning''"
    by code_simp
  show ?thesis
    using h d r categorizeQuestion_first_match [of "''WHAT IS ROI?''" "''WHAT IS ROI?''"]
      categorizeQuestion_first_match [of "''what is roi?''" "''WHAT IS ROI?''"]
      categorizeQuestion_first_match [of "''Explain why, for example''" "''''"]
    by simp
qed

section \<open>The keyword extractor\<close>

lemma extractKeywords_length: "length (extractKeywords tg t) \<le> 5"
  by (simp add: extractKeywords_def)

lemma extractKeywords_long: "w \<in> set (extractKeywords tg t) \<Longrightarrow> 3 \<le> length w"
  by (auto simp: extractKeywords_def dest!: in_set_takeD)

lemma extractKeywords_subset:
  "set (extractKeywords tg t) \<subseteq> set (nouns tg t @ verbs tg t @ adjectives tg t)"
  unfolding extractKeywords_def by (rule subset_trans [OF set_take_subset]) (rule filter_is_subset)

lemma extractKeywords_empty:
  "extractKeywords tg t = [] \<longleftrightarrow>
   (\<forall>w \<in> set (nouns tg t @ verbs tg t @ adjectives tg t). length w \<le> 2)"
proof -
  have "extractKeywords tg t = [] \<longleftrightarrow>
        filter (\<lambda>word. length word > 2) (nouns tg t @ verbs tg t @ adjectives tg t) = []"
    unfolding extractKeywords_def take_eq_Nil by simp
  also have "\<dots> \<longleftrightarrow> (\<forall>w \<in> set (nouns tg t @ verbs tg t @ adjectives tg t). length w \<le> 2)"
    by (simp only: filter_empty_conv not_less)
  finally show ?thesis .
qed

text \<open>
  Claim C9, as the code has it. For every tagger and text, \<open>extractKeywords\<close> returns at
  most 5 entries, each of length at least 3 and each a token the tagger reports. There is
  no guard for an empty or punctuation-only text: the result is empty exactly when every
  token the tagger reports for the text has length 2 or less.
\<close>

theorem extractKeywords_at_most_five:
  "length (extractKeywords tg t) \<le> 5 \<and>
   (\<forall>w \<in> set (extractKeywords tg t). 3 \<le> length w) \<and>
   set (extractKeywords tg t) \<subseteq> set (nouns tg t @ verbs tg t @ adjectives tg t) \<and>
   (extractKeywords tg t = [] \<longleftrightarrow>
      (\<forall>w \<in> set (nouns tg t @ verbs tg t @ adjectives tg t). length w \<le> 2))"
proof (intro conjI ballI)
  show "length (extractKeywords tg t) \<le> 5"
    by (rule extractKeywords_length)
  show "3 \<le> length w" if "w \<in> set (extractKeywords tg t)" for w
    using that by (rule extractKeywords_long)
  show "set (extractKeywords tg t) \<subseteq> set (nouns tg t @ verbs tg t @ adjectives tg t)"
    by (rule extractKeywords_subset)
  show "extractKeywords tg t = [] \<longleftrightarrow>
      (\<forall>w \<in> set (nouns tg t @ verbs tg t @ adjectives tg t). length w \<le> 2)"
    by (rule extractKeywords_empty)
qed

theorem extractKeywords_at_most_five_witness:
  "nouns word_tagger ''a bb? !'' @ verbs word_tagger ''a bb? !'' @ adjectives word_tagger ''a bb? !'' =
     [''a'', ''bb''] \<and>
   extractKeywords word_tagger ''a bb? !'' = [] \<and>
   extractKeywords word_tagger [] = [] \<and>
   extractKeywords whole_text_tagger [] = [] \<and>
   extractKeywords word_tagger ''a bb ccc dddd eeeee ffffff ggggggg hhhhhhhh'' =
     [''ccc'', ''dddd'', ''eeeee'', ''ffffff'', ''ggggggg'']"
proof -
  have a: "nouns word_tagger ''a bb? !'' @ verbs word_tagger ''a bb? !'' @
      adjectives word_tagger ''a bb? !'' = [''a'', ''bb'']" by code_simp
  have b: "extractKeywords word_tagger [] = []" by code_simp
  have c: "extractKeywords whole_text_tagger [] = []" by code_simp
  have d: "extractKeywords word_tagger ''a bb ccc dddd eeeee ffffff ggggggg hhhhhhhh'' =
     [''ccc'', ''dddd'', ''eeeee'', ''ffffff'', ''ggggggg'']" by code_simp
  have "extractKeywords word_tagger ''a bb? !'' = []"
    using extractKeywords_at_most_five [of word_tagger "''a bb? !''"] unfolding a by simp
  then show ?thesis
    using a b c d by simp
qed

text \<open>
  As it is worded the claim fails on a text of punctuation that the tagger reports as a
  token: the text is kept as a keyword.
\<close>

theorem punctuation_text_kept_as_keyword:
  "\<not> list_ex is_word_unit ''...'' \<and>
   nouns whole_text_tagger ''...'' = [''...''] \<and>
   extractKeywords whole_text_tagger ''...'' = [''...'']"
  by code_simp

section \<open>The classification orchestrator\<close>

lemma categorize_disabled:
  "\<not> AI_ENABLED cfg \<or> hf cfg = None \<Longrightarrow>
   EnhancedAI_categorizeQuestion cfg t calls = (Inr (categorizeQuestion t), calls)"
  by (auto simp: EnhancedAI_categorizeQuestion_def)

lemma sentiment_disabled:
  "\<not> AI_ENABLED cfg \<or> hf cfg = None \<Longrightarrow>
   EnhancedAI_analyzeSentiment cfg t calls = (Inr ''neutral'', calls)"
  by (auto simp: EnhancedAI_analyzeSentiment_def)

lemma categorize_returns: "\<exists>c. fst (EnhancedAI_categorizeQuestion cfg t calls) = Inr c"
  by (auto simp: EnhancedAI_categorizeQuestion_def try_catch_def split: option.splits sum.splits)

lemma sentiment_returns: "\<exists>s. fst (EnhancedAI_analyzeSentiment cfg t calls) = Inr s"
  by (auto simp: EnhancedAI_analyzeSentiment_def try_catch_def split: option.splits sum.splits)

lemma classify_pair:
  assumes "fst (EnhancedAI_categorizeQuestion cfg t calls) = Inr c"
    and "fst (EnhancedAI_analyzeSentiment cfg t (snd (EnhancedAI_categorizeQuestion cfg t calls))) = Inr s"
  shows "fst (classify cfg t calls) = Inr (c, s)"
  using assms by (auto simp: classify_def split: prod.splits sum.splits)

lemma classify_returns: "\<exists>c s. fst (classify cfg t calls) = Inr (c, s)"
  using categorize_returns sentiment_returns classify_pair by metis



text \<open>
  Claim C2. When the kill switch is off (\<^verbatim>\<open>AI_ENABLED\<close> is \<^verbatim>\<open>'false'\<close>) or there is no client,
  the classification returns the rule-based category of the text and \<open>neutral\<close>, and the
  log of remote calls is left as it was: no remote call is made, whether or not a client
  is there.
\<close>

theorem classify_kill_switch:
  assumes "\<not> AI_ENABLED cfg \<or> hf cfg = None"
  shows "classify cfg t calls = (Inr (categorizeQuestion t, ''neutral''), calls)"
  using assms by (simp add: classify_def categorize_disabled sentiment_disabled)

theorem classify_kill_switch_witness:
  "\<not> AI_ENABLED \<lparr>AI_ENABLED_var = Some ''false'', hf = Some answering_client\<rparr> \<and>
   classify \<lparr>AI_ENABLED_var = Some ''false'', hf = Some answering_client\<rparr> ''Can you give an example'' [] =
     (Inr (''examples'', ''neutral''), []) \<and>
   hf \<lparr>AI_ENABLED_var = None, hf = None\<rparr> = None \<and>
   classify \<lparr>AI_ENABLED_var = None, hf = None\<rparr> ''Why does this happen'' [] =
     (Inr (''reasoning'', ''neutral''), []) \<and>
   classify \<lparr>AI_ENABLED_var = None, hf = Some answering_client\<rparr> ''Why does this happen'' [] =
     (Inr (''examples'', ''confused''),
      [ZeroShotCall ''Why does this happen'', TextClassCall ''Why does this happen''])"
proof -
  have off: "\<not> AI_ENABLED \<lparr>AI_ENABLED_var = Some ''false'', hf = Some answering_client\<rparr>"
    by (simp add: AI_ENABLED_def)
  have c1: "categorizeQuestion ''Can you give an example'' = ''examples''" by code_simp
  have c2: "categorizeQuestion ''Why does this happen'' = ''reasoning''" by code_simp
  have on: "classify \<lparr>AI_ENABLED_var = None, hf = Some answering_client\<rparr> ''Why does this happen'' [] =
     (Inr (''examples'', ''confused''),
      [ZeroShotCall ''Why does this happen'', TextClassCall ''Why does this happen''])"
    by code_simp
  show ?thesis
    using off c1 c2 on
      classify_kill_switch [of "\<lparr>AI_ENABLED_var = Some ''false'', hf = Some answering_client\<rparr>"
        "''Can you give an example''" "[]"]
      classify_kill_switch [of "\<lparr>AI_ENABLED_var = None, hf = None\<rparr>" "''Why does this happen''" "[]"]
    by simp
qed



section \<open>The handler\<close>

lemma submit_question_classified:
  assumes "fst (classify (config w) (questionText data) (remote_calls st)) = Inr (cat, s)"
  shows "submit_question tg w data st =
         on_rows tg w data cat s (db_all w st (sessionCode data))
           (st\<lparr>remote_calls := snd (classify (config w) (questionText data) (remote_calls st))\<rparr>)"
  using assms by (auto simp: submit_question_def split: prod.splits sum.splits)

lemma generateTopicSummary_nonempty:
  "questions \<noteq> [] \<Longrightarrow> \<exists>summary. generateTopicSummary tg questions = Some summary"
  by (simp add: generateTopicSummary_def Let_def)

lemma generateTopicSummary_no_keywords:
  assumes "generateTopicSummary tg questions = Some summary"
    and "\<forall>m \<in> set questions. extractKeywords tg (member_text m) = []"
  shows "title summary = []"
proof -
  have eq: "concat (map (\<lambda>q. extractKeywords tg (member_text q)) questions) = []"
    using assms(2) by simp
  show ?thesis
    using assms(1) unfolding generateTopicSummary_def Let_def eq
    by (auto simp: Object_entries_def array_sort_def split: if_splits)
qed

lemma on_rows_inserted:
  assumes "insert_error w = None"
  shows "questions_table (on_rows tg w data cat s fetched st) =
           questions_table st @
             [\<lparr>id_col = uuidv4 w, session_id = sessionCode data, student_name = studentName data,
               question_text = questionText data, sentiment_col = s,
               topic_cluster =
                 topic_label
                   (generateTopicSummary tg
                     (relatedQuestions
                       (findSimilarQuestions tg (questionText data)
                         (case fetched of Inl err \<Rightarrow> [] | Inr found \<Rightarrow> found))
                       (case fetched of Inl err \<Rightarrow> [] | Inr found \<Rightarrow> found) (questionText data)))
                   cat\<rparr>]"
  using assms by (simp add: on_rows_def Let_def)

lemma on_rows_broadcast:
  assumes "insert_error w = None"
  shows "broadcast (on_rows tg w data cat s fetched st) =
           broadcast st @
             [(sessionCode data,
               \<lparr>id_qd = uuidv4 w, sessionId = sessionCode data, studentName_qd = studentName data,
                questionText_qd = questionText data, sentiment_qd = sentiment data,
                category = cat,
                topicCluster =
                  topic_label
                    (generateTopicSummary tg
                      (relatedQuestions
                        (findSimilarQuestions tg (questionText data)
                          (case fetched of Inl err \<Rightarrow> [] | Inr found \<Rightarrow> found))
                        (case fetched of Inl err \<Rightarrow> [] | Inr found \<Rightarrow> found) (questionText data)))
                    cat,
                similarQuestions =
                  findSimilarQuestions tg (questionText data)
                    (case fetched of Inl err \<Rightarrow> [] | Inr found \<Rightarrow> found),
                topicSummary =
                  generateTopicSummary tg
                    (relatedQuestions
                      (findSimilarQuestions tg (questionText data)
                        (case fetched of Inl err \<Rightarrow> [] | Inr found \<Rightarrow> found))
                      (case fetched of Inl err \<Rightarrow> [] | Inr found \<Rightarrow> found) (questionText data)),
                timestamp = now w, upvotes = 0\<rparr>)]"
  using assms by (simp add: on_rows_def Let_def)

lemma findSimilarQuestions_Nil: "findSimilarQuestions tg t [] = []"
  by (simp add: findSimilarQuestions_def array_sort_def)

text \<open>
  Claim C10. The cluster handed to the summarizer ends with the new question, so it is
  never empty and the summarizer returns a summary; the topic label is then the summary's
  title, never the category. It is the empty string when no member of the cluster has a
  keyword. When the insert goes through, the row stored and the record broadcast carry
  that title.
\<close>

theorem topic_label_is_summary_title:
  assumes "existing = (case db_all w st (sessionCode data) of Inl err \<Rightarrow> [] | Inr found \<Rightarrow> found)"
    and "cluster =
           relatedQuestions (findSimilarQuestions tg (questionText data) existing) existing
             (questionText data)"
  shows "cluster \<noteq> [] \<and> last cluster = NewQuestion (questionText data) \<and>
         (\<exists>summary. generateTopicSummary tg cluster = Some summary \<and>
            topic_label (generateTopicSummary tg cluster) cat = title summary \<and>
            ((\<forall>m \<in> set cluster. extractKeywords tg (member_text m) = []) \<longrightarrow> title summary = []) \<and>
            (insert_error w = None \<longrightarrow>
               topic_cluster (last (questions_table (submit_question tg w data st))) = title summary \<and>
               topicCluster (snd (last (broadcast (submit_question tg w data st)))) = title summary \<and>
               topicSummary (snd (last (broadcast (submit_question tg w data st)))) = Some summary))"
proof -
  have ne: "cluster \<noteq> []" and la: "last cluster = NewQuestion (questionText data)"
    using assms(2) by (simp_all add: relatedQuestions_def)
  from ne obtain summary where su: "generateTopicSummary tg cluster = Some summary"
    using generateTopicSummary_nonempty by blast
  have lb: "topic_label (generateTopicSummary tg cluster) cat' = title summary" for cat'
    using su by (simp add: topic_label_def)
  have em: "(\<forall>m \<in> set cluster. extractKeywords tg (member_text m) = []) \<longrightarrow> title summary = []"
    using su generateTopicSummary_no_keywords by blast
  obtain c s where cl: "fst (classify (config w) (questionText data) (remote_calls st)) = Inr (c, s)"
    using classify_returns by blast
  have ins: "insert_error w = None \<longrightarrow>
       topic_cluster (last (questions_table (submit_question tg w data st))) = title summary \<and>
       topicCluster (snd (last (broadcast (submit_question tg w data st)))) = title summary \<and>
       topicSummary (snd (last (broadcast (submit_question tg w data st)))) = Some summary"
    using lb su
    by (simp add: submit_question_classified [OF cl] on_rows_inserted on_rows_broadcast
        assms [symmetric])
  have "generateTopicSummary tg cluster = Some summary \<and>
        topic_label (generateTopicSummary tg cluster) cat = title summary \<and>
        ((\<forall>m \<in> set cluster. extractKeywords tg (member_text m) = []) \<longrightarrow> title summary = []) \<and>
        (insert_error w = None \<longrightarrow>
           topic_cluster (last (questions_table (submit_question tg w data st))) = title summary \<and>
           topicCluster (snd (last (broadcast (submit_question tg w data st)))) = title summary \<and>
           topicSummary (snd (last (broadcast (submit_question tg w data st)))) = Some summary)"
    using su lb [of cat] em ins by (intro conjI)
  then have "\<exists>summary. generateTopicSummary tg cluster = Some summary \<and>
        topic_label (generateTopicSummary tg cluster) cat = title summary \<and>
        ((\<forall>m \<in> set cluster. extractKeywords tg (member_text m) = []) \<longrightarrow> title summary = []) \<and>
        (insert_error w = None \<longrightarrow>
           topic_cluster (last (questions_table (submit_question tg w data st))) = title summary \<and>
           topicCluster (snd (last (broadcast (submit_question tg w data st)))) = title summary \<and>
           topicSummary (snd (last (broadcast (submit_question tg w data st)))) = Some summary)"
    by (rule exI)
  with ne la show ?thesis
    by (intro conjI)
qed

theorem topic_label_is_summary_title_witness:
  "topic_cluster (last (questions_table (submit_question word_tagger roi_world roi_submission roi_state))) =
     ''What & ROI & does'' \<and>
   topic_cluster (last (questions_table
     (submit_question word_tagger roi_world (roi_submission\<lparr>questionText := ''?!''\<rparr>) roi_state))) = [] \<and>
   category (snd (last (broadcast
     (submit_question word_tagger roi_world (roi_submission\<lparr>questionText := ''?!''\<rparr>) roi_state)))) =
     ''examples'' \<and>
   insert_error roi_world = None \<and>
   list_all (\<lambda>m. extractKeywords word_tagger (member_text m) = [])
     (relatedQuestions (findSimilarQuestions word_tagger ''?!'' [roi_row]) [roi_row] ''?!'')"
proof -
  let ?d = "roi_submission\<lparr>questionText := ''?!''\<rparr>"
  have a: "topic_cluster (last (questions_table (submit_question word_tagger roi_world roi_submission roi_state))) =
     ''What & ROI & does''" by code_simp
  have b: "category (snd (last (broadcast (submit_question word_tagger roi_world ?d roi_state)))) =
     ''examples''" by code_simp
  have i: "insert_error roi_world = None" by (simp add: roi_world_def)
  have e: "(case db_all roi_world roi_state (sessionCode ?d) of Inl err \<Rightarrow> [] | Inr found \<Rightarrow> found) = [roi_row]"
    by code_simp
  have q: "questionText ?d = ''?!''" by simp
  have k: "list_all (\<lambda>m. extractKeywords word_tagger (member_text m) = [])
     (relatedQuestions (findSimilarQuestions word_tagger ''?!'' [roi_row]) [roi_row] ''?!'')"
    by code_simp
  note T = topic_label_is_summary_title [OF refl refl, where tg = word_tagger and w = roi_world
      and st = roi_state and data = ?d and cat = "''examples''"]
  have "topic_cluster (last (questions_table (submit_question word_tagger roi_world ?d roi_state))) = []"
    using T [unfolded e q] i k by (elim conjE exE) (simp add: list_all_iff)
  then show ?thesis
    using a b i k by simp
qed



text \<open>
  Claim C1, at the submission the web client sends while the remote classifier reads the
  question as negative: the analysed sentiment is \<open>confused\<close> and is what the handler
  stores, but the record it broadcasts carries the client's \<open>neutral\<close>.
\<close>

theorem broadcast_carries_client_sentiment:
  "fst (classify (config roi_world) (questionText roi_submission) (remote_calls roi_state)) =
     Inr (''examples'', ''confused'') \<and>
   map sentiment_col (questions_table (submit_question word_tagger roi_world roi_submission roi_state)) =
     [''neutral'', ''confused''] \<and>
   map (\<lambda>e. sentiment_qd (snd e)) (broadcast (submit_question word_tagger roi_world roi_submission roi_state)) =
     [Some ''neutral'']"
  by code_simp

section \<open>Sets and sorting\<close>

lemma set_foldl_set_add: "set (foldl set_add acc xs) = set acc \<union> set xs"
  by (induction xs arbitrary: acc) (auto simp: set_add_def)

lemma distinct_foldl_set_add: "distinct acc \<Longrightarrow> distinct (foldl set_add acc xs)"
  by (induction xs arbitrary: acc) (auto simp: set_add_def)

lemma set_new_Set: "set (new_Set xs) = set xs"
  by (simp add: new_Set_def set_foldl_set_add)

lemma distinct_new_Set: "distinct (new_Set xs)"
  by (simp add: new_Set_def distinct_foldl_set_add)

lemma set_size_new_Set: "set_size (new_Set xs) = card (set xs)"
  using distinct_card [OF distinct_new_Set, of xs] by (simp add: set_size_def set_new_Set)

lemma mset_sort_insert: "mset (sort_insert cmp x ys) = add_mset x (mset ys)"
  by (induction ys) auto

lemma mset_array_sort: "mset (array_sort cmp xs) = mset xs"
  unfolding array_sort_def by (induction xs) (auto simp: mset_sort_insert)

lemma set_array_sort: "set (array_sort cmp xs) = set xs"
  using mset_array_sort [of cmp xs] by (metis set_mset_mset)

text \<open>
  A comparator that compares by a key: \<open>cmp x y\<close> is positive exactly when the key of \<open>x\<close>
  is the larger one.
\<close>

lemma filter_sort_insert:
  assumes "\<And>y. y \<in> set ys \<Longrightarrow> sort_positive (cmp x y) \<longleftrightarrow> key y < (key x :: 'k :: linorder)"
  shows "filter (\<lambda>y. key y = k) (sort_insert cmp x ys) =
         (if key x = k then x # filter (\<lambda>y. key y = k) ys else filter (\<lambda>y. key y = k) ys)"
  using assms by (induction ys) auto

lemma sorted_sort_insert:
  assumes "\<And>y. y \<in> set ys \<Longrightarrow> sort_positive (cmp x y) \<longleftrightarrow> key y < (key x :: 'k :: linorder)"
    and "sorted (map key ys)"
  shows "sorted (map key (sort_insert cmp x ys))"
  using assms
proof (induction ys)
  case Nil
  then show ?case by simp
next
  case (Cons y ys)
  show ?case
  proof (cases "sort_positive (cmp x y)")
    case True
    then have "key y < key x" using Cons.prems(1) by simp
    moreover have "sorted (map key (sort_insert cmp x ys))"
      using Cons by simp
    moreover have "set (sort_insert cmp x ys) = insert x (set ys)"
      using mset_sort_insert [of cmp x ys] by (metis set_mset_mset set_mset_add_mset_insert)
    ultimately show ?thesis
      using True Cons.prems(2) by auto
  next
    case False
    then have "key x \<le> key y" using Cons.prems(1) by auto
    then show ?thesis
      using False Cons.prems(2) by auto
  qed
qed

lemma array_sort_Cons: "array_sort cmp (x # xs) = sort_insert cmp x (array_sort cmp xs)"
  by (simp add: array_sort_def)

lemma sorted_array_sort:
  assumes "\<And>x y. x \<in> set xs \<Longrightarrow> y \<in> set xs \<Longrightarrow>
             sort_positive (cmp x y) \<longleftrightarrow> key y < (key x :: 'k :: linorder)"
  shows "sorted (map key (array_sort cmp xs))"
  using assms
proof (induction xs)
  case Nil
  show ?case by (simp add: array_sort_def)
next
  case (Cons x xs)
  have c: "\<And>y. y \<in> set (array_sort cmp xs) \<Longrightarrow> sort_positive (cmp x y) \<longleftrightarrow> key y < key x"
    using Cons.prems by (simp add: set_array_sort)
  have ih: "sorted (map key (array_sort cmp xs))"
    using Cons.IH Cons.prems by simp
  show ?case
    unfolding array_sort_Cons using c ih by (rule sorted_sort_insert)
qed

lemma filter_array_sort:
  assumes "\<And>x y. x \<in> set xs \<Longrightarrow> y \<in> set xs \<Longrightarrow>
             sort_positive (cmp x y) \<longleftrightarrow> key y < (key x :: 'k :: linorder)"
  shows "filter (\<lambda>y. key y = k) (array_sort cmp xs) = filter (\<lambda>y. key y = k) xs"
  using assms
proof (induction xs)
  case Nil
  show ?case by (simp add: array_sort_def)
next
  case (Cons x xs)
  have c: "\<And>y. y \<in> set (array_sort cmp xs) \<Longrightarrow> sort_positive (cmp x y) \<longleftrightarrow> key y < key x"
    using Cons.prems by (simp add: set_array_sort)
  have ih: "filter (\<lambda>y. key y = k) (array_sort cmp xs) = filter (\<lambda>y. key y = k) xs"
    using Cons.IH Cons.prems by simp
  have "filter (\<lambda>y. key y = k) (sort_insert cmp x (array_sort cmp xs)) =
        (if key x = k then x # filter (\<lambda>y. key y = k) (array_sort cmp xs)
         else filter (\<lambda>y. key y = k) (array_sort cmp xs))"
    by (rule filter_sort_insert) (rule c)
  then show ?case
    by (simp add: array_sort_Cons ih)
qed

section \<open>The similarity matcher\<close>

lemma jaccard_new_Set:
  "jaccard (new_Set xs) (new_Set ys) =
   size_div (card (set xs \<inter> set ys)) (card (set xs \<union> set ys))"
proof -
  have "set (filter (\<lambda>x. set_has (new_Set ys) x) (new_Set xs)) = set xs \<inter> set ys"
    by (auto simp: set_has_def set_new_Set)
  then have i: "set_size (new_Set (filter (\<lambda>x. set_has (new_Set ys) x) (new_Set xs))) =
      card (set xs \<inter> set ys)"
    by (simp add: set_size_new_Set)
  have u: "set_size (new_Set (new_Set xs @ new_Set ys)) = card (set xs \<union> set ys)"
    by (simp add: set_size_new_Set set_new_Set)
  show ?thesis
    by (simp add: jaccard_def Let_def i u)
qed

lemma jaccard_spec_eq:
  "jaccard (new_Set xs) (new_Set ys) =
   (if set xs \<union> set ys = {} then NaN else Fin (jaccard_spec (set xs) (set ys)))"
  by (auto simp: jaccard_new_Set size_div_def jaccard_spec_def)

lemma jaccard_above:
  "js_gt (jaccard (new_Set xs) (new_Set ys)) (3 / 10) \<longleftrightarrow> 3 / 10 < jaccard_spec (set xs) (set ys)"
  by (auto simp: jaccard_spec_eq jaccard_spec_def)

lemma similarities_loop_eq:
  "similarities_loop tg (new_Set (extractKeywords tg (toLowerCase q))) es acc =
   acc @ map (similar_spec tg q) (matches_spec tg q es)"
proof (induction es arbitrary: acc)
  case Nil
  show ?case by (simp add: matches_spec_def)
next
  case (Cons e es)
  show ?case
    by (simp add: Let_def Cons.IH jaccard_above matches_spec_def keyword_set_def similar_spec_def
        jaccard_spec_eq jaccard_spec_def)
qed

lemma findSimilarQuestions_eq:
  "findSimilarQuestions tg q corpus =
   array_sort (\<lambda>a b. js_sub (similarity b) (similarity a))
     (map (similar_spec tg q) (matches_spec tg q corpus))"
  by (simp add: findSimilarQuestions_def Let_def similarities_loop_eq)

lemma similar_spec_compare:
  assumes "x \<in> set (map (similar_spec tg q) es)" and "y \<in> set (map (similar_spec tg q) es)"
  shows "sort_positive (js_sub (similarity y) (similarity x)) \<longleftrightarrow>
         (case similarity y of Fin v \<Rightarrow> - v | _ \<Rightarrow> 0) < (case similarity x of Fin v \<Rightarrow> - v | _ \<Rightarrow> 0)"
  using assms by (auto simp: similar_spec_def)

lemma findSimilarQuestions_mset:
  "mset (findSimilarQuestions tg q corpus) =
   mset (map (similar_spec tg q) (matches_spec tg q corpus))"
  by (simp add: findSimilarQuestions_eq mset_array_sort)

lemma findSimilarQuestions_set:
  "set (findSimilarQuestions tg q corpus) = similar_spec tg q ` set (matches_spec tg q corpus)"
  by (simp add: findSimilarQuestions_eq set_array_sort)

lemma findSimilarQuestions_above:
  assumes "r \<in> set (findSimilarQuestions tg q corpus)"
  shows "\<exists>x. similarity r = Fin x \<and> 3 / 10 < x"
  using assms by (auto simp: findSimilarQuestions_set matches_spec_def similar_spec_def)

lemma findSimilarQuestions_sorted:
  "sorted_wrt (\<lambda>a b. \<exists>x y. similarity a = Fin x \<and> similarity b = Fin y \<and> y \<le> x)
     (findSimilarQuestions tg q corpus)"
proof -
  let ?key = "\<lambda>r. case similarity r of Fin v \<Rightarrow> - v | _ \<Rightarrow> 0"
  have "sorted (map ?key (findSimilarQuestions tg q corpus))"
    unfolding findSimilarQuestions_eq
    by (rule sorted_array_sort) (rule similar_spec_compare)
  then have "sorted_wrt (\<lambda>a b. ?key a \<le> ?key b) (findSimilarQuestions tg q corpus)"
    by (simp add: sorted_map)
  then show ?thesis
  proof (rule sorted_wrt_mono_rel [rotated])
    fix a b
    assume "a \<in> set (findSimilarQuestions tg q corpus)"
      and "b \<in> set (findSimilarQuestions tg q corpus)" and "?key a \<le> ?key b"
    then show "\<exists>x y. similarity a = Fin x \<and> similarity b = Fin y \<and> y \<le> x"
      using findSimilarQuestions_above [of a tg q corpus] findSimilarQuestions_above [of b tg q corpus]
      by auto
  qed
qed

lemma findSimilarQuestions_stable:
  "filter (\<lambda>r. similarity r = Fin s) (findSimilarQuestions tg q corpus) =
   map (similar_spec tg q)
     (filter (\<lambda>e. jaccard_spec (keyword_set tg q) (keyword_set tg (question_text e)) = s)
        (matches_spec tg q corpus))"
proof -
  let ?key = "\<lambda>r. case similarity r of Fin v \<Rightarrow> - v | _ \<Rightarrow> 0"
  let ?C = "map (similar_spec tg q) (matches_spec tg q corpus)"
  have k: "(similarity r = Fin s) = (?key r = - s)" if "r \<in> set ?C" for r
    using that by (auto simp: similar_spec_def)
  have "filter (\<lambda>r. similarity r = Fin s) (findSimilarQuestions tg q corpus) =
        filter (\<lambda>r. ?key r = - s) (findSimilarQuestions tg q corpus)"
    by (rule filter_cong [OF refl]) (simp add: k findSimilarQuestions_eq set_array_sort)
  also have "\<dots> = filter (\<lambda>r. ?key r = - s) ?C"
    unfolding findSimilarQuestions_eq
    by (rule filter_array_sort) (rule similar_spec_compare)
  also have "\<dots> = filter (\<lambda>r. similarity r = Fin s) ?C"
    by (rule filter_cong [OF refl]) (simp add: k)
  also have "\<dots> = map (similar_spec tg q)
     (filter (\<lambda>e. jaccard_spec (keyword_set tg q) (keyword_set tg (question_text e)) = s)
        (matches_spec tg q corpus))"
    by (simp add: filter_map comp_def similar_spec_def)
  finally show ?thesis .
qed

text \<open>
  Claim C3. The matcher returns one result for each existing question whose Jaccard
  similarity to the new question is strictly above 0.30, and nothing else (so a score of
  exactly 0.30 is left out); the results are in descending order of score; the results of
  any one score stand in the order their questions have in the corpus; and an empty
  corpus gives an empty result.
\<close>

theorem findSimilarQuestions_above_threshold_sorted:
  "mset (findSimilarQuestions tg q corpus) =
     mset (map (similar_spec tg q) (matches_spec tg q corpus)) \<and>
   (\<forall>r \<in> set (findSimilarQuestions tg q corpus). \<exists>x. similarity r = Fin x \<and> 3 / 10 < x) \<and>
   sorted_wrt (\<lambda>a b. \<exists>x y. similarity a = Fin x \<and> similarity b = Fin y \<and> y \<le> x)
     (findSimilarQuestions tg q corpus) \<and>
   (\<forall>s. filter (\<lambda>r. similarity r = Fin s) (findSimilarQuestions tg q corpus) =
        map (similar_spec tg q)
          (filter (\<lambda>e. jaccard_spec (keyword_set tg q) (keyword_set tg (question_text e)) = s)
             (matches_spec tg q corpus))) \<and>
   findSimilarQuestions tg q [] = []"
  using findSimilarQuestions_mset findSimilarQuestions_above findSimilarQuestions_sorted
    findSimilarQuestions_stable findSimilarQuestions_Nil
  by blast

theorem findSimilarQuestions_above_threshold_sorted_witness:
  "map questionId (findSimilarQuestions word_tagger ''alpha beta gamma''
     [roi_row\<lparr>id_col := ''D'', question_text := ''alpha zzz yyy xxx www''\<rparr>,
      roi_row\<lparr>id_col := ''B'', question_text := ''Alpha, beta!''\<rparr>,
      roi_row\<lparr>id_col := ''A'', question_text := ''gamma beta alpha''\<rparr>,
      roi_row\<lparr>id_col := ''C'', question_text := ''alpha gamma?''\<rparr>,
      roi_row\<lparr>id_col := ''E'', question_text := ''??''\<rparr>]) = [''A'', ''B'', ''C''] \<and>
   map similarity (findSimilarQuestions word_tagger ''alpha beta gamma''
     [roi_row\<lparr>id_col := ''D'', question_text := ''alpha zzz yyy xxx www''\<rparr>,
      roi_row\<lparr>id_col := ''B'', question_text := ''Alpha, beta!''\<rparr>,
      roi_row\<lparr>id_col := ''A'', question_text := ''gamma beta alpha''\<rparr>,
      roi_row\<lparr>id_col := ''C'', question_text := ''alpha gamma?''\<rparr>,
      roi_row\<lparr>id_col := ''E'', question_text := ''??''\<rparr>]) = [Fin 1, Fin (2 / 3), Fin (2 / 3)] \<and>
   map id_col (filter
       (\<lambda>e. jaccard_spec (keyword_set word_tagger ''alpha beta gamma'')
              (keyword_set word_tagger (question_text e)) = 2 / 3)
       (matches_spec word_tagger ''alpha beta gamma''
         [roi_row\<lparr>id_col := ''D'', question_text := ''alpha zzz yyy xxx www''\<rparr>,
          roi_row\<lparr>id_col := ''B'', question_text := ''Alpha, beta!''\<rparr>,
          roi_row\<lparr>id_col := ''A'', question_text := ''gamma beta alpha''\<rparr>,
          roi_row\<lparr>id_col := ''C'', question_text := ''alpha gamma?''\<rparr>,
          roi_row\<lparr>id_col := ''E'', question_text := ''??''\<rparr>])) = [''B'', ''C'']"
proof -
  let ?corpus = "[roi_row\<lparr>id_col := ''D'', question_text := ''alpha zzz yyy xxx www''\<rparr>,
      roi_row\<lparr>id_col := ''B'', question_text := ''Alpha, beta!''\<rparr>,
      roi_row\<lparr>id_col := ''A'', question_text := ''gamma beta alpha''\<rparr>,
      roi_row\<lparr>id_col := ''C'', question_text := ''alpha gamma?''\<rparr>,
      roi_row\<lparr>id_col := ''E'', question_text := ''??''\<rparr>]"
  let ?q = "''alpha beta gamma''"
  have i: "map questionId (findSimilarQuestions word_tagger ?q ?corpus) = [''A'', ''B'', ''C'']"
    by code_simp
  have v: "map similarity (findSimilarQuestions word_tagger ?q ?corpus) =
      [Fin 1, Fin (2 / 3), Fin (2 / 3)]"
    by code_simp
  have f: "map questionId (filter (\<lambda>r. similarity r = Fin (2 / 3))
      (findSimilarQuestions word_tagger ?q ?corpus)) = [''B'', ''C'']"
    by code_simp
  have "filter (\<lambda>r. similarity r = Fin (2 / 3)) (findSimilarQuestions word_tagger ?q ?corpus) =
        map (similar_spec word_tagger ?q)
          (filter (\<lambda>e. jaccard_spec (keyword_set word_tagger ?q)
                 (keyword_set word_tagger (question_text e)) = 2 / 3)
             (matches_spec word_tagger ?q ?corpus))"
    using findSimilarQuestions_above_threshold_sorted [of word_tagger ?q ?corpus] by blast
  then have "map id_col (filter
       (\<lambda>e. jaccard_spec (keyword_set word_tagger ?q) (keyword_set word_tagger (question_text e)) = 2 / 3)
       (matches_spec word_tagger ?q ?corpus)) = [''B'', ''C'']"
    using f by (simp add: comp_def similar_spec_def)
  then show ?thesis
    using i v by simp
qed

text \<open>
  Claim C4, as the code has it. When the new question and an existing one both have no
  keyword, the quotient of the two sizes is \<open>0 / 0\<close>: nothing is thrown, the similarity is
  \<open>NaN\<close> (not 0), the comparison with 0.3 is false, and the existing question is left out of
  the result, which is the one the corpus without that question gives.
\<close>

theorem empty_keyword_sets_give_NaN:
  assumes "extractKeywords tg (toLowerCase q) = []"
    and "extractKeywords tg (toLowerCase (question_text e)) = []"
  shows "jaccard (new_Set (extractKeywords tg (toLowerCase q)))
           (new_Set (extractKeywords tg (toLowerCase (question_text e)))) = NaN \<and>
         \<not> js_gt NaN (3 / 10) \<and>
         findSimilarQuestions tg q [e] = [] \<and>
         findSimilarQuestions tg q (before @ e # after) = findSimilarQuestions tg q (before @ after)"
proof -
  have "jaccard_spec (keyword_set tg q) (keyword_set tg (question_text e)) = 0"
    using assms by (simp add: keyword_set_def jaccard_spec_def)
  then have m: "matches_spec tg q (before' @ e # after') = matches_spec tg q (before' @ after')"
    for before' after'
    by (simp add: matches_spec_def)
  have "findSimilarQuestions tg q ([] @ e # []) = findSimilarQuestions tg q ([] @ [])"
    unfolding findSimilarQuestions_eq m ..
  then have "findSimilarQuestions tg q [e] = []"
    by (simp add: findSimilarQuestions_Nil)
  moreover have "findSimilarQuestions tg q (before @ e # after) =
      findSimilarQuestions tg q (before @ after)"
    unfolding findSimilarQuestions_eq m ..
  ultimately show ?thesis
    using assms by (simp add: jaccard_spec_eq)
qed

theorem empty_keyword_sets_give_NaN_witness:
  "extractKeywords word_tagger (toLowerCase ''?!'') = [] \<and>
   extractKeywords word_tagger (toLowerCase (question_text (roi_row\<lparr>question_text := ''...''\<rparr>))) = [] \<and>
   jaccard (new_Set (extractKeywords word_tagger (toLowerCase ''?!'')))
     (new_Set (extractKeywords word_tagger
        (toLowerCase (question_text (roi_row\<lparr>question_text := ''...''\<rparr>))))) = NaN \<and>
   findSimilarQuestions word_tagger ''?!'' [roi_row\<lparr>question_text := ''...''\<rparr>] = []"
proof -
  have a: "extractKeywords word_tagger (toLowerCase ''?!'') = []" by code_simp
  have b: "extractKeywords word_tagger
      (toLowerCase (question_text (roi_row\<lparr>question_text := ''...''\<rparr>))) = []" by code_simp
  show ?thesis
    using a b empty_keyword_sets_give_NaN [OF a b] by simp
qed

text \<open>
  As it is worded the claim fails there: the similarity of two texts without keywords is
  not 0.
\<close>

theorem empty_keyword_similarity_not_zero:
  "extractKeywords word_tagger (toLowerCase ''?!'') = [] \<and>
   extractKeywords word_tagger (toLowerCase ''...'') = [] \<and>
   jaccard (new_Set (extractKeywords word_tagger (toLowerCase ''?!'')))
     (new_Set (extractKeywords word_tagger (toLowerCase ''...''))) \<noteq> Fin 0"
  by code_simp

section \<open>The topic summarizer\<close>

lemma map_fst_set_prop: "map fst (set_prop T k v) = set_add (map fst T) k"
  by (induction T) (force simp: set_add_def)+

lemma map_of_set_prop: "map_of (set_prop T k v) = (map_of T)(k \<mapsto> v)"
  by (induction T) (auto simp: fun_eq_iff)

lemma keys_count_keyword:
  "k \<notin> set prototype_names \<Longrightarrow> map fst (count_keyword T k) = set_add (map fst T) k"
  by (auto simp: count_keyword_def map_fst_set_prop prototype_names_def)

lemma keys_foldl_count_keyword:
  "\<forall>k \<in> set ks. k \<notin> set prototype_names \<Longrightarrow>
   map fst (foldl count_keyword T ks) = foldl set_add (map fst T) ks"
  by (induction ks arbitrary: T) (simp_all add: keys_count_keyword)

text \<open>The table after the keywords \<open>seen\<close>: every key with its number of occurrences.\<close>

lemma counts_count_keyword:
  assumes "k \<notin> set prototype_names"
    and "\<forall>x. map_of T x = (if x \<in> set seen then Some (Count (count_list seen x)) else None)"
  shows "map_of (count_keyword T k) x =
         (if x \<in> set (seen @ [k]) then Some (Count (count_list (seen @ [k]) x)) else None)"
proof -
  have p: "k \<noteq> ''__proto__''"
    using assms(1) by (auto simp: prototype_names_def)
  have n: "next_freq T k = Count (count_list seen k + 1)"
    using assms by (simp add: next_freq_def)
  show ?thesis
    using assms(2) by (simp add: count_keyword_def p n map_of_set_prop)
qed

lemma counts_foldl_count_keyword:
  assumes "\<forall>k \<in> set ks. k \<notin> set prototype_names"
    and "\<forall>x. map_of T x = (if x \<in> set seen then Some (Count (count_list seen x)) else None)"
  shows "map_of (foldl count_keyword T ks) x =
         (if x \<in> set (seen @ ks) then Some (Count (count_list (seen @ ks) x)) else None)"
  using assms
proof (induction ks arbitrary: T seen)
  case Nil
  then show ?case by simp
next
  case (Cons k ks)
  have "\<forall>x. map_of (count_keyword T k) x =
      (if x \<in> set (seen @ [k]) then Some (Count (count_list (seen @ [k]) x)) else None)"
    using counts_count_keyword [of k T seen] Cons.prems by simp
  then have "map_of (foldl count_keyword (count_keyword T k) ks) x =
      (if x \<in> set ((seen @ [k]) @ ks) then Some (Count (count_list ((seen @ [k]) @ ks) x)) else None)"
    using Cons.IH [of "count_keyword T k" "seen @ [k]"] Cons.prems(1) by simp
  then show ?case by simp
qed

lemma keywordFreq_table:
  assumes "\<forall>k \<in> set ks. k \<notin> set prototype_names"
  shows "foldl count_keyword [] ks = map (\<lambda>k. (k, Count (count_list ks k))) (new_Set ks)"
proof -
  let ?T = "foldl count_keyword [] ks"
  have keys: "map fst ?T = new_Set ks"
    using keys_foldl_count_keyword [OF assms, of "[]"] by (simp add: new_Set_def)
  have vals: "map_of ?T x = (if x \<in> set ks then Some (Count (count_list ks x)) else None)" for x
    using counts_foldl_count_keyword [OF assms, of "[]" "[]"] by simp
  have "distinct (map fst ?T)"
    by (simp add: keys distinct_new_Set)
  then have "snd e = Count (count_list ks (fst e))" if "e \<in> set ?T" for e
    using that vals [of "fst e"] by (cases e) (auto split: if_splits)
  then have "?T = map (\<lambda>k. (k, Count (count_list ks k))) (map fst ?T)"
    by (induction ?T) (auto simp: map_idI prod_eq_iff intro!: map_idI [symmetric])
  then show ?thesis
    by (simp only: keys)
qed

lemma first_seen_less: "a \<in> set ks \<Longrightarrow> first_seen ks a < length ks"
  by (induction ks) (auto simp: first_seen_def)

lemma first_seen_append: "a \<in> set ks \<Longrightarrow> first_seen (ks @ ys) a = first_seen ks a"
  by (induction ks) (auto simp: first_seen_def)

lemma first_seen_new: "k \<notin> set ks \<Longrightarrow> first_seen (ks @ [k]) k = length ks"
  by (induction ks) (auto simp: first_seen_def)

lemma new_Set_snoc: "new_Set (ks @ [k]) = set_add (new_Set ks) k"
  by (simp add: new_Set_def)

lemma new_Set_first_seen: "sorted_wrt (\<lambda>a b. first_seen ks a < first_seen ks b) (new_Set ks)"
proof (induction ks rule: rev_induct)
  case Nil
  show ?case by (simp add: new_Set_def)
next
  case (snoc k ks)
  have old: "sorted_wrt (\<lambda>a b. first_seen (ks @ [k]) a < first_seen (ks @ [k]) b) (new_Set ks)"
    using snoc.IH
    by (rule sorted_wrt_mono_rel [rotated]) (simp add: set_new_Set first_seen_append)
  show ?case
  proof (cases "k \<in> set ks")
    case True
    then show ?thesis
      using old by (simp add: new_Set_snoc set_add_def set_new_Set)
  next
    case False
    then show ?thesis
      using old
      by (simp add: new_Set_snoc set_add_def set_new_Set sorted_wrt_append first_seen_new
          first_seen_append first_seen_less)
  qed
qed

text \<open>
  A stable sort of a list that is in order for \<open>R\<close> is in order for the key first and
  \<open>R\<close> second.
\<close>

lemma sort_insert_lexicographic:
  assumes "\<And>y. y \<in> set ys \<Longrightarrow> sort_positive (cmp x y) \<longleftrightarrow> key y < (key x :: 'k :: linorder)"
    and "\<And>y. y \<in> set ys \<Longrightarrow> R x y"
    and "sorted_wrt (\<lambda>a b. key a < key b \<or> (key a = key b \<and> R a b)) ys"
  shows "sorted_wrt (\<lambda>a b. key a < key b \<or> (key a = key b \<and> R a b)) (sort_insert cmp x ys)"
  using assms
proof (induction ys)
  case Nil
  then show ?case by simp
next
  case (Cons y ys)
  have s: "set (sort_insert cmp x ys) = insert x (set ys)"
    using mset_sort_insert [of cmp x ys] by (metis set_mset_mset set_mset_add_mset_insert)
  show ?case
  proof (cases "sort_positive (cmp x y)")
    case True
    then have "key y < key x" using Cons.prems(1) by simp
    moreover have "sorted_wrt (\<lambda>a b. key a < key b \<or> (key a = key b \<and> R a b)) (sort_insert cmp x ys)"
      using Cons by simp
    ultimately show ?thesis
      using True Cons.prems(3) by (auto simp: s)
  next
    case False
    then have le: "key x \<le> key y" using Cons.prems(1) by auto
    have "key x < key z \<or> (key x = key z \<and> R x z)" if "z \<in> set (y # ys)" for z
    proof -
      have "key y \<le> key z" using that Cons.prems(3) by auto
      then have "key x \<le> key z" using le by simp
      then show ?thesis using Cons.prems(2) [OF that] by auto
    qed
    then show ?thesis
      using False Cons.prems(3) by auto
  qed
qed

lemma array_sort_lexicographic:
  assumes "\<And>x y. x \<in> set xs \<Longrightarrow> y \<in> set xs \<Longrightarrow>
             sort_positive (cmp x y) \<longleftrightarrow> key y < (key x :: 'k :: linorder)"
    and "sorted_wrt R xs"
  shows "sorted_wrt (\<lambda>a b. key a < key b \<or> (key a = key b \<and> R a b)) (array_sort cmp xs)"
  using assms
proof (induction xs)
  case Nil
  show ?case by (simp add: array_sort_def)
next
  case (Cons x xs)
  have c: "\<And>y. y \<in> set (array_sort cmp xs) \<Longrightarrow> sort_positive (cmp x y) \<longleftrightarrow> key y < key x"
    using Cons.prems(1) by (simp add: set_array_sort)
  have r: "\<And>y. y \<in> set (array_sort cmp xs) \<Longrightarrow> R x y"
    using Cons.prems(2) by (simp add: set_array_sort)
  have ih: "sorted_wrt (\<lambda>a b. key a < key b \<or> (key a = key b \<and> R a b)) (array_sort cmp xs)"
    using Cons.IH Cons.prems by simp
  show ?case
    unfolding array_sort_Cons using c r ih by (rule sort_insert_lexicographic)
qed

lemma mset_Object_entries: "mset (Object_entries T) = mset T"
  by (simp add: Object_entries_def)

lemma Object_entries_listed:
  assumes "sorted_wrt (\<lambda>a b. first_seen ks a < first_seen ks b) (map fst T)"
  shows "sorted_wrt (\<lambda>e1 e2. listed_before ks (fst e1) (fst e2)) (Object_entries T)"
proof -
  let ?I = "sort_key (\<lambda>e. decimal (fst e)) (filter (\<lambda>e. is_array_index (fst e)) T)"
  let ?O = "filter (\<lambda>e. \<not> is_array_index (fst e)) T"
  have "sorted (map (\<lambda>e. decimal (fst e)) ?I)"
    by (rule sorted_sort_key)
  then have "sorted_wrt (\<lambda>a b. decimal (fst a) \<le> decimal (fst b)) ?I"
    by (simp add: sorted_map)
  then have i: "sorted_wrt (\<lambda>e1 e2. listed_before ks (fst e1) (fst e2)) ?I"
    by (rule sorted_wrt_mono_rel [rotated]) (simp add: listed_before_def)
  have "sorted_wrt (\<lambda>a b. first_seen ks (fst a) < first_seen ks (fst b)) T"
    using assms by (simp add: sorted_wrt_map)
  then have "sorted_wrt (\<lambda>a b. first_seen ks (fst a) < first_seen ks (fst b)) ?O"
    by (rule sorted_wrt_filter)
  then have o: "sorted_wrt (\<lambda>e1 e2. listed_before ks (fst e1) (fst e2)) ?O"
    by (rule sorted_wrt_mono_rel [rotated]) (simp add: listed_before_def)
  have "\<forall>a \<in> set ?I. \<forall>b \<in> set ?O. listed_before ks (fst a) (fst b)"
    by (simp add: listed_before_def)
  with i o show ?thesis
    unfolding Object_entries_def by (simp only: sorted_wrt_append simp_thms)
qed

lemma count_compare:
  assumes "snd x = Count cx" and "snd y = Count cy"
  shows "sort_positive (js_sub (freq_number (snd y)) (freq_number (snd x))) \<longleftrightarrow>
         - int cy < - int cx"
  using assms by simp

lemma top_keywords:
  assumes "\<forall>k \<in> set ks. k \<notin> set prototype_names"
    and "tops = map fst (take 3
           (array_sort (\<lambda>e1 e2. js_sub (freq_number (snd e2)) (freq_number (snd e1)))
              (Object_entries (foldl count_keyword [] ks))))"
  shows "distinct tops" and "set tops \<subseteq> set ks" and "length tops = min 3 (card (set ks))"
    and "sorted_wrt (ranks_before ks) tops"
    and "\<forall>a \<in> set tops. \<forall>b \<in> set ks - set tops. ranks_before ks a b"
proof -
  let ?T = "map (\<lambda>k. (k, Count (count_list ks k))) (new_Set ks)"
  let ?cmp = "\<lambda>e1 e2. js_sub (freq_number (snd e2)) (freq_number (snd e1))"
  let ?S = "array_sort ?cmp (Object_entries ?T)"
  let ?K = "map fst ?S"
  let ?key = "\<lambda>e. - int (count_list ks (fst e))"
  have tk: "tops = take 3 ?K"
    using assms(2) by (simp add: keywordFreq_table [OF assms(1)] take_map)
  have mk: "mset ?K = mset (new_Set ks)"
    by (simp add: mset_array_sort mset_Object_entries multiset.map_comp comp_def)
  have dk: "distinct ?K"
    using mset_eq_imp_distinct_iff [OF mk] distinct_new_Set [of ks] by simp
  have sk: "set ?K = set ks"
    using mset_eq_setD [OF mk] by (simp only: set_new_Set)
  have lk: "length ?K = card (set ks)"
    using mset_eq_length [OF mk] set_size_new_Set [of ks] by (simp only: set_size_def)
  have se: "set (Object_entries ?T) = set ?T"
    by (rule mset_eq_setD) (rule mset_Object_entries)
  have cmp: "sort_positive (?cmp x y) \<longleftrightarrow> ?key y < ?key x"
    if "x \<in> set (Object_entries ?T)" and "y \<in> set (Object_entries ?T)" for x y
    using that unfolding se by (intro count_compare) auto
  have "sorted_wrt (\<lambda>a b. first_seen ks a < first_seen ks b) (map fst ?T)"
    using new_Set_first_seen [of ks] by (simp add: comp_def)
  then have "sorted_wrt (\<lambda>e1 e2. listed_before ks (fst e1) (fst e2)) (Object_entries ?T)"
    by (rule Object_entries_listed)
  with cmp have "sorted_wrt (\<lambda>a b. ?key a < ?key b \<or>
        (?key a = ?key b \<and> listed_before ks (fst a) (fst b))) ?S"
    by (rule array_sort_lexicographic)
  then have "sorted_wrt (\<lambda>a b. ranks_before ks (fst a) (fst b)) ?S"
    by (rule sorted_wrt_mono_rel [rotated]) (auto simp: ranks_before_def)
  then have "sorted_wrt (ranks_before ks) ?K"
    by (simp add: sorted_wrt_map)
  then have "sorted_wrt (ranks_before ks) (take 3 ?K @ drop 3 ?K)"
    by simp
  then have st: "sorted_wrt (ranks_before ks) (take 3 ?K)"
    and sd: "\<forall>a \<in> set (take 3 ?K). \<forall>b \<in> set (drop 3 ?K). ranks_before ks a b"
    unfolding sorted_wrt_append by simp_all
  show "distinct tops"
    using dk by (simp add: tk)
  show "set tops \<subseteq> set ks"
    using sk set_take_subset [of 3 ?K] by (simp add: tk)
  show "length tops = min 3 (card (set ks))"
    using lk by (simp add: tk min.commute)
  show "sorted_wrt (ranks_before ks) tops"
    using st by (simp add: tk)
  have un: "set ks = set (take 3 ?K) \<union> set (drop 3 ?K)"
    using set_append [of "take 3 ?K" "drop 3 ?K"] unfolding append_take_drop_id sk .
  show "\<forall>a \<in> set tops. \<forall>b \<in> set ks - set tops. ranks_before ks a b"
  proof (intro ballI)
    fix a b
    assume a: "a \<in> set tops" and b: "b \<in> set ks - set tops"
    from b have "b \<in> set (drop 3 ?K)"
      unfolding tk un by (simp only: Diff_iff Un_iff) blast
    moreover from a have "a \<in> set (take 3 ?K)"
      unfolding tk .
    ultimately show "ranks_before ks a b"
      using sd by (simp only: Ball_def)
  qed
qed

lemma ranks_before_seen:
  "\<not> is_array_index a \<Longrightarrow> \<not> is_array_index b \<Longrightarrow> ranks_before ks a b = seen_ranks_before ks a b"
  by (simp add: ranks_before_def seen_ranks_before_def listed_before_def)

lemma generateTopicSummary_Nil: "generateTopicSummary tg [] = None"
  by (simp add: generateTopicSummary_def)

lemma generateTopicSummary_fields:
  assumes "questions \<noteq> []"
    and "tops = map fst (take 3
           (array_sort (\<lambda>e1 e2. js_sub (freq_number (snd e2)) (freq_number (snd e1)))
              (Object_entries (foldl count_keyword [] (cluster_keywords tg questions)))))"
  shows "generateTopicSummary tg questions =
         Some \<lparr>title = join '' & '' tops, keywords_ts = tops, questionCount = length questions,
               urgency = (if 2 < length questions then ''high''
                          else if 1 < length questions then ''medium'' else ''low'')\<rparr>"
  using assms by (simp add: generateTopicSummary_def cluster_keywords_def Let_def)

text \<open>
  Claim C6, as the code has it. The summarizer returns nothing for an empty cluster.
  Otherwise it returns a summary whose title is its keywords joined with \<open>&\<close>, whose count is
  the size of the cluster and whose urgency is high above 2, medium above 1 and low
  otherwise; it keeps at most 3 keywords. When no keyword of the cluster is a name that
  objects inherit (such as \<open>constructor\<close>), the keywords kept are distinct keywords of the
  cluster, 3 of them or all when there are fewer, in ranking order, and each ranks before
  every keyword left out: the ranking is by descending frequency and, on equal frequency,
  by the order in which the frequency object lists its keys, numerals that are array
  indices first and the other keywords in first-seen order. When no keyword is such a
  numeral, ties are thus broken by first-seen order.
\<close>

theorem generateTopicSummary_top_three:
  assumes "ks = cluster_keywords tg questions"
  shows "generateTopicSummary tg [] = None \<and>
    (questions \<noteq> [] \<longrightarrow>
      (\<exists>summary. generateTopicSummary tg questions = Some summary \<and>
         title summary = join '' & '' (keywords_ts summary) \<and>
         questionCount summary = length questions \<and>
         urgency summary =
           (if 2 < length questions then ''high''
            else if 1 < length questions then ''medium'' else ''low'') \<and>
         length (keywords_ts summary) \<le> 3 \<and>
         ((\<forall>k \<in> set ks. k \<notin> set prototype_names) \<longrightarrow>
            distinct (keywords_ts summary) \<and>
            set (keywords_ts summary) \<subseteq> set ks \<and>
            length (keywords_ts summary) = min 3 (card (set ks)) \<and>
            sorted_wrt (ranks_before ks) (keywords_ts summary) \<and>
            (\<forall>a \<in> set (keywords_ts summary). \<forall>b \<in> set ks - set (keywords_ts summary).
               ranks_before ks a b) \<and>
            ((\<forall>k \<in> set ks. \<not> is_array_index k) \<longrightarrow>
               sorted_wrt (seen_ranks_before ks) (keywords_ts summary) \<and>
               (\<forall>a \<in> set (keywords_ts summary). \<forall>b \<in> set ks - set (keywords_ts summary).
                  seen_ranks_before ks a b)))))"
proof (intro conjI impI)
  show "generateTopicSummary tg [] = None"
    by (rule generateTopicSummary_Nil)
next
  assume ne: "questions \<noteq> []"
  define tops where "tops = map fst (take 3
           (array_sort (\<lambda>e1 e2. js_sub (freq_number (snd e2)) (freq_number (snd e1)))
              (Object_entries (foldl count_keyword [] ks))))"
  define summary where "summary =
         \<lparr>title = join '' & '' tops, keywords_ts = tops, questionCount = length questions,
          urgency = (if 2 < length questions then ''high''
                     else if 1 < length questions then ''medium'' else ''low'')\<rparr>"
  have g: "generateTopicSummary tg questions = Some summary"
    unfolding summary_def
    by (rule generateTopicSummary_fields [OF ne]) (simp add: tops_def assms)
  have kw: "keywords_ts summary = tops"
    by (simp add: summary_def)
  have le: "length tops \<le> 3"
    by (simp add: tops_def)
  have ranked: "distinct tops \<and> set tops \<subseteq> set ks \<and> length tops = min 3 (card (set ks)) \<and>
      sorted_wrt (ranks_before ks) tops \<and>
      (\<forall>a \<in> set tops. \<forall>b \<in> set ks - set tops. ranks_before ks a b)"
    if h: "\<forall>k \<in> set ks. k \<notin> set prototype_names"
    using top_keywords [OF h tops_def] by (intro conjI)
  have seen: "sorted_wrt (seen_ranks_before ks) tops \<and>
      (\<forall>a \<in> set tops. \<forall>b \<in> set ks - set tops. seen_ranks_before ks a b)"
    if h: "\<forall>k \<in> set ks. k \<notin> set prototype_names" and n: "\<forall>k \<in> set ks. \<not> is_array_index k"
  proof -
    have sub: "set tops \<subseteq> set ks"
      using ranked [OF h] by (elim conjE)
    have eq: "ranks_before ks a b = seen_ranks_before ks a b" if "a \<in> set ks" and "b \<in> set ks" for a b
      using that n by (intro ranks_before_seen) auto
    have "sorted_wrt (ranks_before ks) tops"
      using ranked [OF h] by (elim conjE)
    then have 1: "sorted_wrt (seen_ranks_before ks) tops"
    proof (rule sorted_wrt_mono_rel [rotated])
      fix a b
      assume "a \<in> set tops" and "b \<in> set tops" and "ranks_before ks a b"
      then show "seen_ranks_before ks a b"
        using eq [of a b] sub by auto
    qed
    have r: "\<forall>a \<in> set tops. \<forall>b \<in> set ks - set tops. ranks_before ks a b"
      using ranked [OF h] by (elim conjE)
    have 2: "\<forall>a \<in> set tops. \<forall>b \<in> set ks - set tops. seen_ranks_before ks a b"
    proof (intro ballI)
      fix a b
      assume a: "a \<in> set tops" and b: "b \<in> set ks - set tops"
      then have "ranks_before ks a b"
        using r by (simp only: Ball_def)
      moreover have "a \<in> set ks" and "b \<in> set ks"
        using a b sub by auto
      ultimately show "seen_ranks_before ks a b"
        using eq [of a b] by simp
    qed
    from 1 2 show ?thesis ..
  qed
  have "generateTopicSummary tg questions = Some summary \<and>
         title summary = join '' & '' (keywords_ts summary) \<and>
         questionCount summary = length questions \<and>
         urgency summary =
           (if 2 < length questions then ''high''
            else if 1 < length questions then ''medium'' else ''low'') \<and>
         length (keywords_ts summary) \<le> 3 \<and>
         ((\<forall>k \<in> set ks. k \<notin> set prototype_names) \<longrightarrow>
            distinct (keywords_ts summary) \<and>
            set (keywords_ts summary) \<subseteq> set ks \<and>
            length (keywords_ts summary) = min 3 (card (set ks)) \<and>
            sorted_wrt (ranks_before ks) (keywords_ts summary) \<and>
            (\<forall>a \<in> set (keywords_ts summary). \<forall>b \<in> set ks - set (keywords_ts summary).
               ranks_before ks a b) \<and>
            ((\<forall>k \<in> set ks. \<not> is_array_index k) \<longrightarrow>
               sorted_wrt (seen_ranks_before ks) (keywords_ts summary) \<and>
               (\<forall>a \<in> set (keywords_ts summary). \<forall>b \<in> set ks - set (keywords_ts summary).
                  seen_ranks_before ks a b)))"
    unfolding kw
  proof (intro conjI impI)
    show "generateTopicSummary tg questions = Some summary" by (rule g)
    show "title summary = join '' & '' tops" by (simp add: summary_def)
    show "questionCount summary = length questions" by (simp add: summary_def)
    show "urgency summary =
           (if 2 < length questions then ''high''
            else if 1 < length questions then ''medium'' else ''low'')"
      by (simp add: summary_def)
    show "length tops \<le> 3" by (rule le)
  next
    assume h: "\<forall>k \<in> set ks. k \<notin> set prototype_names"
    show "distinct tops" using ranked [OF h] by (elim conjE)
    show "set tops \<subseteq> set ks" using ranked [OF h] by (elim conjE)
    show "length tops = min 3 (card (set ks))" using ranked [OF h] by (elim conjE)
    show "sorted_wrt (ranks_before ks) tops" using ranked [OF h] by (elim conjE)
    show "\<forall>a \<in> set tops. \<forall>b \<in> set ks - set tops. ranks_before ks a b"
      using ranked [OF h] by (elim conjE)
    assume n: "\<forall>k \<in> set ks. \<not> is_array_index k"
    show "sorted_wrt (seen_ranks_before ks) tops" using seen [OF h n] by (elim conjE)
    show "\<forall>a \<in> set tops. \<forall>b \<in> set ks - set tops. seen_ranks_before ks a b"
      using seen [OF h n] by (elim conjE)
  qed
  then show "\<exists>summary. generateTopicSummary tg questions = Some summary \<and>
         title summary = join '' & '' (keywords_ts summary) \<and>
         questionCount summary = length questions \<and>
         urgency summary =
           (if 2 < length questions then ''high''
            else if 1 < length questions then ''medium'' else ''low'') \<and>
         length (keywords_ts summary) \<le> 3 \<and>
         ((\<forall>k \<in> set ks. k \<notin> set prototype_names) \<longrightarrow>
            distinct (keywords_ts summary) \<and>
            set (keywords_ts summary) \<subseteq> set ks \<and>
            length (keywords_ts summary) = min 3 (card (set ks)) \<and>
            sorted_wrt (ranks_before ks) (keywords_ts summary) \<and>
            (\<forall>a \<in> set (keywords_ts summary). \<forall>b \<in> set ks - set (keywords_ts summary).
               ranks_before ks a b) \<and>
            ((\<forall>k \<in> set ks. \<not> is_array_index k) \<longrightarrow>
               sorted_wrt (seen_ranks_before ks) (keywords_ts summary) \<and>
               (\<forall>a \<in> set (keywords_ts summary). \<forall>b \<in> set ks - set (keywords_ts summary).
                  seen_ranks_before ks a b)))"
    by (rule exI)
qed

theorem generateTopicSummary_top_three_witness:
  "cluster_keywords word_tagger [NewQuestion ''zebra 100 apple'', NewQuestion ''apple pear''] =
     [''zebra'', ''100'', ''apple'', ''apple'', ''pear''] \<and>
   list_all (\<lambda>k. k \<notin> set prototype_names) [''zebra'', ''100'', ''apple'', ''apple'', ''pear''] \<and>
   generateTopicSummary word_tagger [NewQuestion ''zebra 100 apple'', NewQuestion ''apple pear''] =
     Some \<lparr>title = ''apple & 100 & zebra'', keywords_ts = [''apple'', ''100'', ''zebra''],
           questionCount = 2, urgency = ''medium''\<rparr> \<and>
   sorted_wrt (ranks_before [''zebra'', ''100'', ''apple'', ''apple'', ''pear''])
     [''apple'', ''100'', ''zebra''] \<and>
   ranks_before [''zebra'', ''100'', ''apple'', ''apple'', ''pear''] ''zebra'' ''pear'' \<and>
   cluster_keywords word_tagger [Row roi_row, NewQuestion ''What does ROI mean?''] =
     [''What'', ''ROI'', ''What'', ''does'', ''ROI'', ''mean''] \<and>
   list_all (\<lambda>k. k \<notin> set prototype_names \<and> \<not> is_array_index k)
     [''What'', ''ROI'', ''What'', ''does'', ''ROI'', ''mean''] \<and>
   generateTopicSummary word_tagger [Row roi_row, NewQuestion ''What does ROI mean?''] =
     Some \<lparr>title = ''What & ROI & does'', keywords_ts = [''What'', ''ROI'', ''does''],
           questionCount = 2, urgency = ''medium''\<rparr> \<and>
   sorted_wrt (seen_ranks_before [''What'', ''ROI'', ''What'', ''does'', ''ROI'', ''mean''])
     [''What'', ''ROI'', ''does'']"
proof -
  let ?c = "[NewQuestion ''zebra 100 apple'', NewQuestion ''apple pear'']"
  let ?ks = "[''zebra'', ''100'', ''apple'', ''apple'', ''pear'']"
  let ?d = "[Row roi_row, NewQuestion ''What does ROI mean?'']"
  let ?ls = "[''What'', ''ROI'', ''What'', ''does'', ''ROI'', ''mean'']"
  have k: "cluster_keywords word_tagger ?c = ?ks" by code_simp
  have h: "list_all (\<lambda>k. k \<notin> set prototype_names) ?ks" by code_simp
  have g: "generateTopicSummary word_tagger ?c =
     Some \<lparr>title = ''apple & 100 & zebra'', keywords_ts = [''apple'', ''100'', ''zebra''],
           questionCount = 2, urgency = ''medium''\<rparr>" by code_simp
  have l: "cluster_keywords word_tagger ?d = ?ls" by code_simp
  have i: "list_all (\<lambda>k. k \<notin> set prototype_names \<and> \<not> is_array_index k) ?ls" by code_simp
  have f: "generateTopicSummary word_tagger ?d =
     Some \<lparr>title = ''What & ROI & does'', keywords_ts = [''What'', ''ROI'', ''does''],
           questionCount = 2, urgency = ''medium''\<rparr>" by code_simp
  have hb: "\<forall>k \<in> set ?ks. k \<notin> set prototype_names"
    using h by (simp only: list_all_iff)
  have ib: "\<forall>k \<in> set ?ls. k \<notin> set prototype_names" "\<forall>k \<in> set ?ls. \<not> is_array_index k"
    using i by (simp_all only: list_all_iff) blast+
  have p: "''pear'' \<in> set ?ks - set [''apple'', ''100'', ''zebra'']"
    and z: "''zebra'' \<in> set [''apple'', ''100'', ''zebra'']" by simp_all
  from generateTopicSummary_top_three [OF k [symmetric]] hb
  have "sorted_wrt (ranks_before ?ks) [''apple'', ''100'', ''zebra''] \<and>
        (\<forall>a \<in> set [''apple'', ''100'', ''zebra'']. \<forall>b \<in> set ?ks - set [''apple'', ''100'', ''zebra''].
            ranks_before ?ks a b)"
    unfolding g by simp
  then have r: "sorted_wrt (ranks_before ?ks) [''apple'', ''100'', ''zebra'']"
    and q: "ranks_before ?ks ''zebra'' ''pear''"
    using p z by blast+
  from generateTopicSummary_top_three [OF l [symmetric]] ib
  have s: "sorted_wrt (seen_ranks_before ?ls) [''What'', ''ROI'', ''does'']"
    unfolding f by simp
  show ?thesis
    using k h g r q l i f s by (intro conjI)
qed

text \<open>
  As it is worded the claim fails on a keyword that is a numeral: \<open>zebra\<close> and \<open>100\<close> are as
  frequent, \<open>zebra\<close> is seen first, and the summary lists \<open>100\<close> first.
\<close>

theorem numeral_keyword_listed_first:
  "cluster_keywords word_tagger [NewQuestion ''zebra 100''] = [''zebra'', ''100''] \<and>
   generateTopicSummary word_tagger [NewQuestion ''zebra 100''] =
     Some \<lparr>title = ''100 & zebra'', keywords_ts = [''100'', ''zebra''], questionCount = 1,
           urgency = ''low''\<rparr> \<and>
   count_list [''zebra'', ''100''] ''zebra'' = count_list [''zebra'', ''100''] ''100'' \<and>
   first_seen [''zebra'', ''100''] ''zebra'' < first_seen [''zebra'', ''100''] ''100'' \<and>
   \<not> seen_ranks_before [''zebra'', ''100''] ''100'' ''zebra''"
  by code_simp

end
